theory Spec2Isabelle
  imports Complex_Main "HOL-Library.Word"
begin

section \<open>Values of the platform\<close>

text \<open>
  The program is a browser application (\<^verbatim>\<open>src/App.tsx\<close>,
  \<^verbatim>\<open>src/services/geminiService.ts\<close>). Its audio helpers work on typed arrays:
  a \<^verbatim>\<open>Uint8Array\<close> is a list of bytes, an \<^verbatim>\<open>Int16Array\<close> a list of 16-bit words
  read as two's complement, a \<^verbatim>\<open>Float32Array\<close> a list of \<open>f32\<close> values.

  Every number the decoder stores is \<open>k / 32768\<close> with \<open>k\<close> a 16-bit integer, which a
  32-bit float holds exactly, so a stored sample is modelled by its exact rational value;
  \<open>NaN\<close> is what JavaScript computes from \<^verbatim>\<open>undefined / 32768.0\<close>.
  The quotient \<^verbatim>\<open>dataInt16.length / numChannels\<close> is a division of numbers, not an
  integer division, and is kept as a rational.
\<close>

type_synonym byte = "8 word"
type_synonym int16 = "16 word"

datatype f32 = Val rat | NaN

text \<open>
  A JavaScript string is a sequence of UTF-16 code units; \<open>js\<close> writes one from the
  characters of a literal.
\<close>

type_synonym js_string = "nat list"

definition js :: "string \<Rightarrow> js_string" where
  "js s = map of_char s"

text \<open>
  What a \<^verbatim>\<open>throw\<close> (or a rejected promise of an \<^verbatim>\<open>async\<close> function) carries:
  an \<^verbatim>\<open>Error\<close> built by the program with its message, or one of the exceptions the
  platform raises, whose message text is the browser's own (\<open>dom_message\<close> of the
  platform, below).
\<close>

datatype dom_exn = RangeError | NotSupportedError | IndexSizeError | InvalidCharacterError

datatype exn = JsError js_string | Dom dom_exn

section \<open>The transcoder: \<^verbatim>\<open>decodeAudioData\<close>\<close>

text \<open>
  \<^verbatim>\<open>new Int16Array(data.buffer)\<close> views the bytes of the underlying buffer as 16-bit
  integers in platform byte order (little-endian on the platforms browsers run on). ECMAScript
  raises a \<^verbatim>\<open>RangeError\<close> when the byte length is not a multiple of the element size.
  The function only ever reads \<^verbatim>\<open>data.buffer\<close>, so the model's \<open>data\<close> is the content
  of that buffer (for an array made by \<^verbatim>\<open>new Uint8Array(len)\<close>, as in \<^verbatim>\<open>decode\<close>,
  these are the bytes of the array itself).
\<close>

fun int16_of_bytes :: "byte list \<Rightarrow> int16 list" where
  "int16_of_bytes (lo # hi # bs) = of_nat (unat lo + 256 * unat hi) # int16_of_bytes bs"
| "int16_of_bytes bs = []"

definition new_Int16Array :: "byte list \<Rightarrow> exn + int16 list" where
  "new_Int16Array buf =
     (if length buf mod 2 \<noteq> 0 then Inl (Dom RangeError) else Inr (int16_of_bytes buf))"

text \<open>
  An \<^verbatim>\<open>AudioContext\<close> is modelled by the limits of the implementation that
  \<^verbatim>\<open>createBuffer\<close> checks; the Web Audio standard requires every implementation to
  support at least 32 channels and the sample rates from 8000 to 96000.
\<close>

record AudioContext =
  maxChannels :: nat
  minRate :: rat
  maxRate :: rat

record AudioBuffer =
  sampleRate :: rat
  frames :: nat
  channels :: "f32 list list"

text \<open>
  \<^verbatim>\<open>ctx.createBuffer(numberOfChannels, length, sampleRate)\<close>. The \<^verbatim>\<open>length\<close>
  parameter is an IDL \<^verbatim>\<open>unsigned long\<close>: the number passed is truncated to an integer
  and reduced modulo \<open>2 ^ 32\<close>. The standard has the call throw
  \<^verbatim>\<open>NotSupportedError\<close> when an argument is zero or outside its nominal range
  (in particular the length must be at least 1); otherwise the buffer is zero-initialised.
\<close>

definition to_unsigned_long :: "rat \<Rightarrow> nat" where
  "to_unsigned_long x = nat (\<lfloor>x\<rfloor> mod 2 ^ 32)"

definition createBuffer :: "AudioContext \<Rightarrow> nat \<Rightarrow> rat \<Rightarrow> rat \<Rightarrow> exn + AudioBuffer" where
  "createBuffer ctx numberOfChannels len rate =
     (if numberOfChannels = 0 \<or> maxChannels ctx < numberOfChannels
         \<or> to_unsigned_long len = 0
         \<or> rate < minRate ctx \<or> maxRate ctx < rate
      then Inl (Dom NotSupportedError)
      else Inr \<lparr>sampleRate = rate, frames = to_unsigned_long len,
                channels = replicate numberOfChannels (replicate (to_unsigned_long len) (Val 0))\<rparr>)"

text \<open>
  \<^verbatim>\<open>buffer.getChannelData(channel)\<close> hands out the channel's array (the loop writes
  into the buffer through it) and throws \<^verbatim>\<open>IndexSizeError\<close> for a channel the
  buffer does not have.
\<close>

definition getChannelData :: "AudioBuffer \<Rightarrow> nat \<Rightarrow> exn + f32 list" where
  "getChannelData buffer channel =
     (if channel < length (channels buffer) then Inr (channels buffer ! channel)
      else Inl (Dom IndexSizeError))"

text \<open>
  Reading a typed array past its end gives \<^verbatim>\<open>undefined\<close>, and
  \<^verbatim>\<open>undefined / 32768.0\<close> is \<open>NaN\<close>; writing past the end of a typed array is
  silently ignored.
\<close>

definition int16_get :: "int16 list \<Rightarrow> nat \<Rightarrow> int option" where
  "int16_get a k = (if k < length a then Some (sint (a ! k)) else None)"

definition div_32768 :: "int option \<Rightarrow> f32" where
  "div_32768 v = (case v of None \<Rightarrow> NaN | Some k \<Rightarrow> Val (of_int k / 32768))"

definition f32_set :: "f32 list \<Rightarrow> nat \<Rightarrow> f32 \<Rightarrow> f32 list" where
  "f32_set a k v = (if k < length a then a[k := v] else a)"

text \<open>
  The inner loop
  \<^verbatim>\<open>for (let i = 0; i < frameCount; i++) channelData[i] = dataInt16[i * numChannels + channel] / 32768.0\<close>
  started at \<open>i\<close>. The bound \<open>frameCount\<close> is the unrounded quotient.
\<close>

function frame_loop :: "int16 list \<Rightarrow> nat \<Rightarrow> nat \<Rightarrow> rat \<Rightarrow> nat \<Rightarrow> f32 list \<Rightarrow> f32 list" where
  "frame_loop dataInt16 numChannels channel frameCount i channelData =
     (if of_nat i < frameCount
      then frame_loop dataInt16 numChannels channel frameCount (Suc i)
             (f32_set channelData i (div_32768 (int16_get dataInt16 (i * numChannels + channel))))
      else channelData)"
  by pat_completeness auto
termination
proof (relation "measure (\<lambda>(d, n, c, frameCount, i, a). nat \<lceil>frameCount\<rceil> - i)")
  show "wf (measure (\<lambda>(d :: int16 list, n :: nat, c :: nat, frameCount :: rat, i :: nat, a :: f32 list).
              nat \<lceil>frameCount\<rceil> - i))"
    by simp
next
  fix dataInt16 :: "int16 list" and numChannels channel i :: nat and frameCount :: rat
    and channelData :: "f32 list"
  assume lt: "of_nat i < frameCount"
  have "of_int (int i) < frameCount"
    using lt by simp
  then have "int i < \<lceil>frameCount\<rceil>"
    by (simp only: less_ceiling_iff)
  then have "i < nat \<lceil>frameCount\<rceil>"
    by linarith
  then show "((dataInt16, numChannels, channel, frameCount, Suc i,
               f32_set channelData i (div_32768 (int16_get dataInt16 (i * numChannels + channel)))),
              (dataInt16, numChannels, channel, frameCount, i, channelData))
             \<in> measure (\<lambda>(d, n, c, frameCount, i, a). nat \<lceil>frameCount\<rceil> - i)"
    by simp
qed

text \<open>
  The outer loop \<^verbatim>\<open>for (let channel = 0; channel < numChannels; channel++)\<close> started at
  \<open>channel\<close>, with the buffer as it stands.
\<close>

function channel_loop :: "int16 list \<Rightarrow> nat \<Rightarrow> rat \<Rightarrow> nat \<Rightarrow> AudioBuffer \<Rightarrow> exn + AudioBuffer" where
  "channel_loop dataInt16 numChannels frameCount channel buffer =
     (if channel < numChannels
      then (case getChannelData buffer channel of
              Inl e \<Rightarrow> Inl e
            | Inr channelData \<Rightarrow>
                channel_loop dataInt16 numChannels frameCount (Suc channel)
                  (buffer\<lparr>channels := (channels buffer)
                     [channel := frame_loop dataInt16 numChannels channel frameCount 0 channelData]\<rparr>))
      else Inr buffer)"
  by pat_completeness auto
termination
  by (relation "measure (\<lambda>(d, numChannels, f, channel, b). numChannels - channel)") auto

declare frame_loop.simps [simp del] channel_loop.simps [simp del]

text \<open>
  \<^verbatim>\<open>decodeAudioData(data, ctx, sampleRate, numChannels)\<close>: \<open>Inl\<close> is the rejected
  promise. With \<open>numChannels = 0\<close> JavaScript's quotient is \<open>Infinity\<close> or \<open>NaN\<close>
  where HOL's is \<open>0\<close>; \<open>createBuffer\<close> rejects the zero channel count whatever the
  length is, so the difference does not reach the result.
\<close>

definition decodeAudioData :: "byte list \<Rightarrow> AudioContext \<Rightarrow> rat \<Rightarrow> nat \<Rightarrow> exn + AudioBuffer" where
  "decodeAudioData data ctx rate numChannels =
     (case new_Int16Array data of
        Inl e \<Rightarrow> Inl e
      | Inr dataInt16 \<Rightarrow>
          (let frameCount = of_nat (length dataInt16) / of_nat numChannels in
           case createBuffer ctx numChannels frameCount rate of
             Inl e \<Rightarrow> Inl e
           | Inr buffer \<Rightarrow> channel_loop dataInt16 numChannels frameCount 0 buffer))"

text \<open>
  The transcoder's input as the specification words it: the \<open>k\<close>-th signed 16-bit
  little-endian integer of a byte sequence. This definition follows the specification, not
  the code; \<open>sint_int16_of_bytes\<close> below shows that the array built by
  \<open>new_Int16Array\<close> holds exactly these numbers.
\<close>

definition raw_sample :: "byte list \<Rightarrow> nat \<Rightarrow> int" where
  "raw_sample data k =
     (let u = int (unat (data ! (2 * k))) + 256 * int (unat (data ! (2 * k + 1)))
      in if u < 32768 then u else u - 65536)"

section \<open>Base64: \<^verbatim>\<open>decode\<close>\<close>

text \<open>
  \<^verbatim>\<open>window.atob\<close> runs the "forgiving-base64 decode" of the WHATWG Infra standard and
  throws an \<^verbatim>\<open>InvalidCharacterError\<close> when that fails. The steps, in the standard's
  order: remove all ASCII whitespace (tab, LF, FF, CR, space); if the length is a multiple of
  four, remove one or two trailing \<open>=\<close>; fail if the length leaves remainder 1 modulo four;
  fail if a code unit is not in the base64 alphabet; then append six bits per character to a
  bit buffer, emitting three bytes whenever it holds 24 bits; at the end a buffer of 12 bits
  gives one byte (the last four bits discarded) and one of 18 bits gives two (the last two
  discarded).
\<close>

definition is_ascii_whitespace :: "nat \<Rightarrow> bool" where
  "is_ascii_whitespace c = (c = 9 \<or> c = 10 \<or> c = 12 \<or> c = 13 \<or> c = 32)"

text \<open>Table 1 of RFC 4648, from the code unit of a character to its six-bit value.\<close>

definition b64_value :: "nat \<Rightarrow> nat option" where
  "b64_value c =
     (if 65 \<le> c \<and> c \<le> 90 then Some (c - 65)
      else if 97 \<le> c \<and> c \<le> 122 then Some (c - 71)
      else if 48 \<le> c \<and> c \<le> 57 then Some (c + 4)
      else if c = 43 then Some 62
      else if c = 47 then Some 63
      else None)"

definition strip_padding :: "js_string \<Rightarrow> js_string" where
  "strip_padding d =
     (if length d mod 4 = 0 \<and> d \<noteq> [] then
        (if last d = 61 \<and> last (butlast d) = 61 then butlast (butlast d)
         else if last d = 61 then butlast d
         else d)
      else d)"

text \<open>
  The loop over the characters: \<open>buf\<close> is the bit buffer read as a number, \<open>bits\<close> the
  number of bits it holds, \<open>out\<close> the bytes emitted so far.
\<close>

fun b64_loop :: "nat list \<Rightarrow> nat \<Rightarrow> nat \<Rightarrow> byte list \<Rightarrow> byte list" where
  "b64_loop [] buf bits out =
     (if bits = 12 then out @ [of_nat (buf div 16)]
      else if bits = 18 then out @ [of_nat (buf div 4 div 256), of_nat (buf div 4 mod 256)]
      else out)"
| "b64_loop (n # ns) buf bits out =
     (if bits + 6 = 24
      then b64_loop ns 0 0
             (out @ [of_nat ((buf * 64 + n) div 65536), of_nat ((buf * 64 + n) div 256 mod 256),
                     of_nat ((buf * 64 + n) mod 256)])
      else b64_loop ns (buf * 64 + n) (bits + 6) out)"

definition forgiving_base64_decode :: "js_string \<Rightarrow> byte list option" where
  "forgiving_base64_decode s =
     (let d = strip_padding (filter (\<lambda>c. \<not> is_ascii_whitespace c) s) in
      if length d mod 4 = 1 then None
      else if list_ex (\<lambda>c. b64_value c = None) d then None
      else Some (b64_loop (map (\<lambda>c. the (b64_value c)) d) 0 0 []))"

text \<open>\<^verbatim>\<open>atob\<close> returns the bytes as a string, one code unit per byte.\<close>

definition atob :: "js_string \<Rightarrow> exn + js_string" where
  "atob s =
     (case forgiving_base64_decode s of
        None \<Rightarrow> Inl (Dom InvalidCharacterError)
      | Some bs \<Rightarrow> Inr (map unat bs))"

text \<open>
  \<^verbatim>\<open>decode\<close>: the loop \<^verbatim>\<open>for (let i = 0; i < len; i++) bytes[i] = binaryString.charCodeAt(i)\<close>
  over a fresh, zero-filled \<^verbatim>\<open>Uint8Array(len)\<close>; a store into a \<^verbatim>\<open>Uint8Array\<close>
  keeps the value modulo 256.
\<close>

function decode_loop :: "js_string \<Rightarrow> nat \<Rightarrow> nat \<Rightarrow> byte list \<Rightarrow> byte list" where
  "decode_loop binaryString len i bytes =
     (if i < len
      then decode_loop binaryString len (Suc i)
             (if i < length bytes \<and> i < length binaryString
              then bytes[i := of_nat (binaryString ! i)] else bytes)
      else bytes)"
  by pat_completeness auto
termination
  by (relation "measure (\<lambda>(b, len, i, a). len - i)") auto

declare decode_loop.simps [simp del]

definition decode :: "js_string \<Rightarrow> exn + byte list" where
  "decode base64 =
     (case atob base64 of
        Inl e \<Rightarrow> Inl e
      | Inr binaryString \<Rightarrow>
          (let len = length binaryString in
           Inr (decode_loop binaryString len 0 (replicate len 0))))"

section \<open>The synthesis service: \<^verbatim>\<open>synthesizeSpeech\<close>\<close>

text \<open>
  The response of \<^verbatim>\<open>ai.models.generateContent\<close> as far as the function reads it:
  \<^verbatim>\<open>response.candidates?.[0]?.content?.parts?.[0]?.inlineData?.data\<close>, every level of
  which may be missing.
\<close>

datatype inline_data = InlineData "js_string option"
datatype part = Part "inline_data option"
datatype content = Content "part list option"
datatype candidate = Candidate "content option"
datatype response = Response "candidate list option"

text \<open>\<^verbatim>\<open>xs?.[0]\<close>: the first element, \<^verbatim>\<open>undefined\<close> when there is no array or no element.\<close>

fun first_of :: "'a list option \<Rightarrow> 'a option" where
  "first_of None = None"
| "first_of (Some []) = None"
| "first_of (Some (x # xs)) = Some x"

fun audio_data :: "response \<Rightarrow> js_string option" where
  "audio_data (Response candidates) =
     (case first_of candidates of
        None \<Rightarrow> None
      | Some (Candidate c) \<Rightarrow>
          (case c of
             None \<Rightarrow> None
           | Some (Content parts) \<Rightarrow>
               (case first_of parts of
                  None \<Rightarrow> None
                | Some (Part i) \<Rightarrow>
                    (case i of None \<Rightarrow> None | Some (InlineData d) \<Rightarrow> d))))"

text \<open>
  What the awaited call did: it resolved with a response, or it rejected with an
  \<^verbatim>\<open>Error\<close> (a value for which \<^verbatim>\<open>instanceof Error\<close> holds, with its message), or it
  rejected with some other value.
\<close>

datatype upstream = Resolves response | RejectsError js_string | RejectsOther

text \<open>What the \<^verbatim>\<open>try\<close> block of \<^verbatim>\<open>synthesizeSpeech\<close> throws into its \<^verbatim>\<open>catch\<close>.\<close>

datatype thrown = ThrownError js_string | ThrownOther

definition synthesize_try :: "upstream \<Rightarrow> thrown + js_string" where
  "synthesize_try u =
     (case u of
        Resolves response \<Rightarrow>
          (case audio_data response of
             None \<Rightarrow> Inl (ThrownError (js ''API did not return audio data.''))
           | Some base64Audio \<Rightarrow>
               if base64Audio = [] then Inl (ThrownError (js ''API did not return audio data.''))
               else Inr base64Audio)
      | RejectsError m \<Rightarrow> Inl (ThrownError m)
      | RejectsOther \<Rightarrow> Inl ThrownOther)"

text \<open>
  \<^verbatim>\<open>synthesizeSpeech(ssml, voiceName)\<close>, as a function of what the upstream call did
  (the two arguments only travel to the service). The \<^verbatim>\<open>console.error\<close> of the
  \<^verbatim>\<open>catch\<close> block is not modelled.
\<close>

definition synthesizeSpeech :: "upstream \<Rightarrow> exn + js_string" where
  "synthesizeSpeech u =
     (case synthesize_try u of
        Inr base64Audio \<Rightarrow> Inr base64Audio
      | Inl (ThrownError m) \<Rightarrow> Inl (JsError (js ''Failed to synthesize speech: '' @ m))
      | Inl ThrownOther \<Rightarrow>
          Inl (JsError (js ''An unknown error occurred during speech synthesis.'')))"

section \<open>The playback controller of \<^verbatim>\<open>App\<close>\<close>

text \<open>
  The state the handlers of \<^verbatim>\<open>App\<close> read and write: the three React state variables,
  the two refs, and the \<^verbatim>\<open>AudioBufferSourceNode\<close>s created so far, which
  \<^verbatim>\<open>audioSourceRef\<close> refers to by position. A node enters the list connected and
  started (\<^verbatim>\<open>createBufferSource\<close>, \<^verbatim>\<open>connect\<close> and \<^verbatim>\<open>start\<close> run without
  a pause in between); \<open>ended\<close> says that it no longer sounds (it was stopped or its buffer
  played to the end) and \<open>notified\<close> that its \<^verbatim>\<open>ended\<close> event has been dispatched.
  \<open>requests\<close> counts the \<^verbatim>\<open>synthesizeSpeech\<close> calls whose response is still awaited.
\<close>

record source_node =
  node_buffer :: AudioBuffer
  connected :: bool
  ended :: bool
  notified :: bool

record app =
  isLoading :: bool
  isPlaying :: bool
  error :: "js_string option"
  audioContextRef :: "AudioContext option"
  audioSourceRef :: "nat option"
  nodes :: "source_node list"
  requests :: nat

definition initial :: app where
  "initial = \<lparr>isLoading = False, isPlaying = False, error = None, audioContextRef = None,
               audioSourceRef = None, nodes = [], requests = 0\<rparr>"

text \<open>
  What the browser contributes: the context that \<^verbatim>\<open>new AudioContext({ sampleRate: 24000 })\<close>
  creates and the message texts of the exceptions it raises.
\<close>

record platform =
  newAudioContext :: AudioContext
  dom_message :: "dom_exn \<Rightarrow> js_string"

fun message :: "platform \<Rightarrow> exn \<Rightarrow> js_string" where
  "message pf (JsError m) = m"
| "message pf (Dom d) = dom_message pf d"

text \<open>
  \<^verbatim>\<open>stopPlayback\<close>: with a source in the ref, \<^verbatim>\<open>stop()\<close> and
  \<^verbatim>\<open>disconnect()\<close> it, clear the ref and the playing flag; otherwise nothing.
\<close>

definition stopPlayback :: "app \<Rightarrow> app" where
  "stopPlayback s =
     (case audioSourceRef s of
        None \<Rightarrow> s
      | Some k \<Rightarrow>
          s\<lparr>nodes := (nodes s)[k := (nodes s ! k)\<lparr>connected := False, ended := True\<rparr>],
            audioSourceRef := None,
            isPlaying := False\<rparr>)"

text \<open>
  \<^verbatim>\<open>handleSynthesizeAndPlay\<close> up to \<^verbatim>\<open>await synthesizeSpeech(ssml, selectedVoice)\<close>:
  the loading guard, \<^verbatim>\<open>stopPlayback()\<close>, the two state updates, and the request sent.
\<close>

definition handleSynthesizeAndPlay_begin :: "app \<Rightarrow> app" where
  "handleSynthesizeAndPlay_begin s =
     (if isLoading s then s
      else (stopPlayback s)\<lparr>isLoading := True, error := None, requests := Suc (requests s)\<rparr>)"

text \<open>
  The rest of the \<^verbatim>\<open>try\<close> block once the upstream call has settled: the state it leaves
  and the exception it throws, if any. The second \<^verbatim>\<open>await\<close> (of
  \<^verbatim>\<open>decodeAudioData\<close>, which runs to its end without waiting for anything) lets no other
  handler in, so the block is one step.
\<close>

definition try_block :: "platform \<Rightarrow> upstream \<Rightarrow> app \<Rightarrow> exn option \<times> app" where
  "try_block pf u s =
     (case synthesizeSpeech u of
        Inl e \<Rightarrow> (Some e, s)
      | Inr base64Audio \<Rightarrow>
          (let ctx = (case audioContextRef s of None \<Rightarrow> newAudioContext pf | Some c \<Rightarrow> c);
               s1 = s\<lparr>audioContextRef := Some ctx\<rparr>
           in case decode base64Audio of
                Inl e \<Rightarrow> (Some e, s1)
              | Inr bytes \<Rightarrow>
                  (case decodeAudioData bytes ctx 24000 1 of
                     Inl e \<Rightarrow> (Some e, s1)
                   | Inr audioBuffer \<Rightarrow>
                       (None,
                        s1\<lparr>nodes := nodes s1 @ [\<lparr>node_buffer = audioBuffer, connected = True,
                                                    ended = False, notified = False\<rparr>],
                           audioSourceRef := Some (length (nodes s1)),
                           isPlaying := True\<rparr>))))"

text \<open>
  The \<^verbatim>\<open>catch\<close> block, \<^verbatim>\<open>setError(err.message || 'An unexpected error occurred.')\<close>
  and \<^verbatim>\<open>setIsPlaying(false)\<close>, and the \<^verbatim>\<open>finally\<close> block.
\<close>

definition catch_block :: "platform \<Rightarrow> exn \<Rightarrow> app \<Rightarrow> app" where
  "catch_block pf err s =
     s\<lparr>error := Some (if message pf err = [] then js ''An unexpected error occurred.''
                       else message pf err),
       isPlaying := False\<rparr>"

definition handleSynthesizeAndPlay_resume :: "platform \<Rightarrow> upstream \<Rightarrow> app \<Rightarrow> app" where
  "handleSynthesizeAndPlay_resume pf u s =
     (let s1 = (case try_block pf u s of
                  (None, s') \<Rightarrow> s'
                | (Some err, s') \<Rightarrow> catch_block pf err s')
      in s1\<lparr>isLoading := False, requests := requests s1 - 1\<rparr>)"

text \<open>The \<^verbatim>\<open>onended\<close> handler that every source gets.\<close>

definition source_onended :: "app \<Rightarrow> app" where
  "source_onended s = s\<lparr>isPlaying := False, audioSourceRef := None\<rparr>"

text \<open>
  What can happen to the application, one handler at a time (the program is single-threaded):
  \<^item> \<open>Play\<close> and \<open>Stop\<close>: \<^verbatim>\<open>handleSynthesizeAndPlay\<close> and \<^verbatim>\<open>stopPlayback\<close> are called;
  \<^item> \<open>Click\<close>: the button, disabled while loading, whose handler is
    \<^verbatim>\<open>isPlaying ? stopPlayback : handleSynthesizeAndPlay\<close>;
  \<^item> \<open>Settled u\<close>: the awaited upstream call settles with \<open>u\<close> and the handler resumes;
  \<^item> \<open>Finish k\<close>: source \<open>k\<close> plays its buffer to the end;
  \<^item> \<open>Ended k\<close>: the \<^verbatim>\<open>ended\<close> event of source \<open>k\<close> is dispatched. The platform
    dispatches it once, as a task of its own, for a source that no longer sounds, whether it
    finished or was stopped.

  \<open>None\<close> means the event cannot happen in the state.
\<close>

datatype event = Play | Stop | Click | Settled upstream | Finish nat | Ended nat

fun fire :: "platform \<Rightarrow> event \<Rightarrow> app \<Rightarrow> app option" where
  "fire pf Play s = Some (handleSynthesizeAndPlay_begin s)"
| "fire pf Stop s = Some (stopPlayback s)"
| "fire pf Click s =
     (if isLoading s then None
      else if isPlaying s then Some (stopPlayback s)
      else Some (handleSynthesizeAndPlay_begin s))"
| "fire pf (Settled u) s =
     (if requests s = 0 then None
      else Some (handleSynthesizeAndPlay_resume pf u s))"
| "fire pf (Finish k) s =
     (if k < length (nodes s) \<and> \<not> ended (nodes s ! k)
      then Some (s\<lparr>nodes := (nodes s)[k := (nodes s ! k)\<lparr>ended := True\<rparr>]\<rparr>)
      else None)"
| "fire pf (Ended k) s =
     (if k < length (nodes s) \<and> ended (nodes s ! k) \<and> \<not> notified (nodes s ! k)
      then Some (source_onended (s\<lparr>nodes := (nodes s)[k := (nodes s ! k)\<lparr>notified := True\<rparr>]\<rparr>))
      else None)"

text \<open>Running a sequence of events from a state; the states the application can be in.\<close>

fun run :: "platform \<Rightarrow> event list \<Rightarrow> app \<Rightarrow> app option" where
  "run pf [] s = Some s"
| "run pf (e # es) s = (case fire pf e s of None \<Rightarrow> None | Some s' \<Rightarrow> run pf es s')"

inductive reachable :: "platform \<Rightarrow> app \<Rightarrow> bool" for pf :: platform where
  start: "reachable pf initial"
| step: "reachable pf s \<Longrightarrow> fire pf e s = Some s' \<Longrightarrow> reachable pf s'"

text \<open>
  An \<^verbatim>\<open>ended\<close> event is due a few milliseconds after its source falls silent, the
  response of the synthesis service after a network round trip, but neither the program nor
  the platform's standards order the two tasks. An event is timely when it is not a response
  handled while an \<^verbatim>\<open>ended\<close> event is outstanding; a run is timely when all its events
  are.
\<close>

definition ended_pending :: "app \<Rightarrow> bool" where
  "ended_pending s = list_ex (\<lambda>n. ended n \<and> \<not> notified n) (nodes s)"

fun timely :: "event \<Rightarrow> app \<Rightarrow> bool" where
  "timely (Settled u) s = (\<not> ended_pending s)"
| "timely e s = True"

fun timely_run :: "platform \<Rightarrow> event list \<Rightarrow> app \<Rightarrow> bool" where
  "timely_run pf [] s = True"
| "timely_run pf (e # es) s =
     (timely e s \<and> (case fire pf e s of None \<Rightarrow> False | Some s' \<Rightarrow> timely_run pf es s'))"

inductive reachable_timely :: "platform \<Rightarrow> app \<Rightarrow> bool" for pf :: platform where
  start: "reachable_timely pf initial"
| step: "reachable_timely pf s \<Longrightarrow> timely e s \<Longrightarrow> fire pf e s = Some s' \<Longrightarrow>
         reachable_timely pf s'"

text \<open>The sources that sound; at most one should.\<close>

definition active :: "app \<Rightarrow> nat list" where
  "active s = filter (\<lambda>k. \<not> ended (nodes s ! k)) [0..<length (nodes s)]"

text \<open>
  What holds of every state the application reaches, in whatever order the events come
  (\<open>reachable_ref_consistent\<close>): the ref points to an existing source whose \<^verbatim>\<open>ended\<close>
  event is still to come; the playing flag says whether the ref is set; nothing is in the ref
  while loading; and a request is outstanding exactly while loading.
\<close>

definition ref_consistent :: "app \<Rightarrow> bool" where
  "ref_consistent s \<longleftrightarrow>
     (\<forall>k. audioSourceRef s = Some k \<longrightarrow> k < length (nodes s) \<and> \<not> notified (nodes s ! k))
   \<and> (isPlaying s \<longleftrightarrow> audioSourceRef s \<noteq> None)
   \<and> (isLoading s \<longrightarrow> audioSourceRef s = None)
   \<and> requests s = (if isLoading s then 1 else 0)"

text \<open>
  What holds in addition along timely runs (\<open>reachable_timely_consistent\<close>): every source
  other than the one in the ref has ended, and with a source in the ref the others have had
  their \<^verbatim>\<open>ended\<close> event.
\<close>

definition consistent :: "app \<Rightarrow> bool" where
  "consistent s \<longleftrightarrow>
     (\<forall>k < length (nodes s). audioSourceRef s \<noteq> Some k \<longrightarrow> ended (nodes s ! k))
   \<and> (\<forall>k < length (nodes s). audioSourceRef s \<noteq> Some k \<longrightarrow> audioSourceRef s \<noteq> None \<longrightarrow>
          notified (nodes s ! k))
   \<and> ref_consistent s"

section \<open>Properties of the transcoder\<close>

lemma replicate2: "replicate 2 x = [x, x]"
  by (simp add: numeral_2_eq_2)

lemma sint16_of_nat:
  assumes "n < 65536"
  shows "sint (of_nat n :: 16 word) = (if n < 32768 then int n else int n - 65536)"
proof -
  have "sint (of_nat n :: 16 word) = signed_take_bit 15 (int n)"
    by (simp add: signed_of_nat)
  also have "\<dots> = take_bit 16 (int n + 32768) - 32768"
    by (simp add: signed_take_bit_eq_take_bit_shift)
  also have "\<dots> = (int n + 32768) mod 65536 - 32768"
    by (simp add: take_bit_eq_mod)
  also have "\<dots> = (if n < 32768 then int n else int n - 65536)"
  proof (cases "n < 32768")
    case True
    then have "(int n + 32768) mod 65536 = int n + 32768" by simp
    with True show ?thesis by simp
  next
    case False
    with assms have "(int n + 32768) mod 65536 = int n + 32768 - 65536"
      by (simp add: mod_pos_geq)
    with False show ?thesis by simp
  qed
  finally show ?thesis .
qed

lemma unat_byte_less: "unat (b :: byte) < 256"
  using unsigned_less [of b, where ?'a = nat] by simp

lemma length_int16_of_bytes: "length (int16_of_bytes bs) = length bs div 2"
  by (induction bs rule: int16_of_bytes.induct) simp_all

lemma int16_of_bytes_nth:
  "k < length bs div 2 \<Longrightarrow>
   int16_of_bytes bs ! k = of_nat (unat (bs ! (2 * k)) + 256 * unat (bs ! (2 * k + 1)))"
proof (induction bs arbitrary: k rule: int16_of_bytes.induct)
  case (1 lo hi bs)
  then show ?case by (cases k) simp_all
qed simp_all

lemma sint_int16_of_bytes:
  assumes "k < length bs div 2"
  shows "sint (int16_of_bytes bs ! k) = raw_sample bs k"
proof -
  define n where "n = unat (bs ! (2 * k)) + 256 * unat (bs ! (2 * k + 1))"
  have "n < 65536"
    unfolding n_def
    using unat_byte_less [of "bs ! (2 * k)"] unat_byte_less [of "bs ! (2 * k + 1)"] by linarith
  then have s: "sint (of_nat n :: 16 word) = (if n < 32768 then int n else int n - 65536)"
    by (rule sint16_of_nat)
  have w: "int16_of_bytes bs ! k = of_nat n"
    unfolding n_def using assms by (rule int16_of_bytes_nth)
  have r: "raw_sample bs k = (if int n < 32768 then int n else int n - 65536)"
    by (simp add: raw_sample_def Let_def n_def)
  show ?thesis
    unfolding w s r by simp
qed

lemma frame_loop_length: "length (frame_loop d n c f i a) = length a"
proof (induction d n c f i a rule: frame_loop.induct)
  case (1 d n c f i a)
  show ?case
  proof (cases "of_nat i < f")
    case True
    with "1.IH" show ?thesis
      by (simp add: frame_loop.simps [of d n c f i a] f32_set_def)
  next
    case False
    then show ?thesis
      by (simp add: frame_loop.simps [of d n c f i a])
  qed
qed

lemma frame_loop_nth:
  "j < length a \<Longrightarrow>
   frame_loop d n c f i a ! j =
     (if i \<le> j \<and> of_nat j < f then div_32768 (int16_get d (j * n + c)) else a ! j)"
proof (induction d n c f i a rule: frame_loop.induct)
  case (1 d n c f i a)
  let ?v = "div_32768 (int16_get d (i * n + c))"
  show ?case
  proof (cases "of_nat i < f")
    case True
    have unfold: "frame_loop d n c f i a = frame_loop d n c f (Suc i) (f32_set a i ?v)"
      using True by (simp add: frame_loop.simps [of d n c f i a])
    have len: "j < length (f32_set a i ?v)"
      using "1.prems" by (simp add: f32_set_def)
    have IH: "frame_loop d n c f (Suc i) (f32_set a i ?v) ! j =
        (if Suc i \<le> j \<and> of_nat j < f then div_32768 (int16_get d (j * n + c))
         else f32_set a i ?v ! j)"
      by (rule "1.IH" [OF True len])
    show ?thesis
    proof (cases "i = j")
      case True
      with \<open>of_nat i < f\<close> "1.prems" show ?thesis
        unfolding unfold IH by (simp add: f32_set_def)
    next
      case False
      with "1.prems" show ?thesis
        unfolding unfold IH by (auto simp: f32_set_def)
    qed
  next
    case False
    have "\<not> (i \<le> j \<and> of_nat j < f)"
    proof
      assume a: "i \<le> j \<and> of_nat j < f"
      then have "(of_nat i :: rat) \<le> of_nat j" by simp
      with a have "of_nat i < f" by linarith
      with False show False by simp
    qed
    with False show ?thesis
      by (auto simp: frame_loop.simps [of d n c f i a])
  qed
qed

lemma channel_loop_result:
  "n \<le> length (channels b) \<Longrightarrow>
   channel_loop d n f ch b =
     Inr (b\<lparr>channels := map (\<lambda>c. if ch \<le> c \<and> c < n then frame_loop d n c f 0 (channels b ! c)
                                    else channels b ! c) [0..<length (channels b)]\<rparr>)"
proof (induction d n f ch b rule: channel_loop.induct)
  case (1 d n f ch b)
  show ?case
  proof (cases "ch < n")
    case True
    let ?b' = "b\<lparr>channels := (channels b)[ch := frame_loop d n ch f 0 (channels b ! ch)]\<rparr>"
    have g: "getChannelData b ch = Inr (channels b ! ch)"
      using True "1.prems" by (simp add: getChannelData_def)
    have len: "n \<le> length (channels ?b')"
      using "1.prems" by simp
    note IH = "1.IH" [OF True g len]
    have step: "channel_loop d n f ch b = channel_loop d n f (Suc ch) ?b'"
      using True g by (simp add: channel_loop.simps [of d n f ch b])
    have "map (\<lambda>c. if Suc ch \<le> c \<and> c < n then frame_loop d n c f 0 (channels ?b' ! c)
                                    else channels ?b' ! c) [0..<length (channels ?b')]
        = map (\<lambda>c. if ch \<le> c \<and> c < n then frame_loop d n c f 0 (channels b ! c)
                                    else channels b ! c) [0..<length (channels b)]"
      using True "1.prems" by (auto intro!: map_cong simp: nth_list_update)
    with IH step show ?thesis by simp
  next
    case False
    have "map (\<lambda>c. if ch \<le> c \<and> c < n then frame_loop d n c f 0 (channels b ! c)
                                    else channels b ! c) [0..<length (channels b)] = channels b"
    proof -
      have "\<And>c. \<not> (ch \<le> c \<and> c < n)"
        using False by linarith
      then show ?thesis
        by (simp only: if_False map_nth)
    qed
    with False show ?thesis
      by (simp add: channel_loop.simps [of d n f ch b])
  qed
qed

lemma to_unsigned_long_quotient:
  "to_unsigned_long (of_nat m / of_nat n) = (m div n) mod 2 ^ 32"
proof -
  have "\<lfloor>(of_nat m :: rat) / of_nat n\<rfloor> = int (m div n)"
    by (simp add: floor_divide_of_nat_eq)
  then have "to_unsigned_long (of_nat m / of_nat n) = nat (int (m div n) mod 2 ^ 32)"
    by (simp add: to_unsigned_long_def)
  also have "\<dots> = (m div n) mod 2 ^ 32"
    by (simp add: nat_mod_distrib)
  finally show ?thesis .
qed

text \<open>What a call that gets past both checks returns.\<close>

lemma decodeAudioData_Inr:
  assumes "decodeAudioData data ctx rate numChannels = Inr buffer"
  shows "length data mod 2 = 0 \<and> 0 < numChannels \<and> numChannels \<le> maxChannels ctx
         \<and> minRate ctx \<le> rate \<and> rate \<le> maxRate ctx
         \<and> frames buffer = (length data div 2 div numChannels) mod 2 ^ 32
         \<and> 0 < frames buffer
         \<and> sampleRate buffer = rate
         \<and> channels buffer =
             map (\<lambda>c. frame_loop (int16_of_bytes data) numChannels c
                         (of_nat (length data div 2) / of_nat numChannels) 0
                         (replicate (frames buffer) (Val 0)))
                 [0..<numChannels]"
proof -
  let ?d = "int16_of_bytes data"
  let ?f = "(of_nat (length data div 2) :: rat) / of_nat numChannels"
  let ?L = "(length data div 2 div numChannels) mod 2 ^ 32"
  let ?b0 = "\<lparr>sampleRate = rate, frames = ?L,
              channels = replicate numChannels (replicate ?L (Val 0))\<rparr>"
  have even: "length data mod 2 = 0"
    using assms by (auto simp: decodeAudioData_def new_Int16Array_def split: if_splits)
  then have arr: "new_Int16Array data = Inr ?d"
    by (simp add: new_Int16Array_def)
  have run: "(case createBuffer ctx numChannels ?f rate of
                Inl e \<Rightarrow> Inl e
              | Inr b \<Rightarrow> channel_loop ?d numChannels ?f 0 b) = Inr buffer"
    using assms arr by (simp add: decodeAudioData_def length_int16_of_bytes Let_def)
  have ok: "\<not> (numChannels = 0 \<or> maxChannels ctx < numChannels \<or> to_unsigned_long ?f = 0
              \<or> rate < minRate ctx \<or> maxRate ctx < rate)"
  proof
    assume "numChannels = 0 \<or> maxChannels ctx < numChannels \<or> to_unsigned_long ?f = 0
              \<or> rate < minRate ctx \<or> maxRate ctx < rate"
    then have "createBuffer ctx numChannels ?f rate = Inl (Dom NotSupportedError)"
      unfolding createBuffer_def by (rule if_P)
    with run show False by simp
  qed
  then have cb: "createBuffer ctx numChannels ?f rate = Inr ?b0"
    unfolding createBuffer_def to_unsigned_long_quotient by (rule if_not_P)
  have "channel_loop ?d numChannels ?f 0 ?b0 = Inr buffer"
    using run cb by simp
  moreover have "channel_loop ?d numChannels ?f 0 ?b0 =
      Inr (?b0\<lparr>channels := map (\<lambda>c. if 0 \<le> c \<and> c < numChannels
                                        then frame_loop ?d numChannels c ?f 0 (channels ?b0 ! c)
                                        else channels ?b0 ! c) [0..<length (channels ?b0)]\<rparr>)"
    by (rule channel_loop_result) simp
  ultimately have buf: "buffer = ?b0\<lparr>channels := map (\<lambda>c. if 0 \<le> c \<and> c < numChannels
                                        then frame_loop ?d numChannels c ?f 0 (channels ?b0 ! c)
                                        else channels ?b0 ! c) [0..<length (channels ?b0)]\<rparr>"
    by simp
  have fr: "frames buffer = ?L" and sr: "sampleRate buffer = rate"
    by (simp_all add: buf)
  have ch: "channels buffer = map (\<lambda>c. frame_loop ?d numChannels c ?f 0 (replicate ?L (Val 0)))
                 [0..<numChannels]"
    by (simp add: buf cong: map_cong)
  have pos: "0 < ?L"
    using ok by (simp add: to_unsigned_long_quotient)
  from even ok fr sr ch pos show ?thesis
    by (simp add: not_less)
qed


lemma decodeAudioData_succeeds:
  assumes "length data mod 2 = 0"
    and "0 < numChannels" and "numChannels \<le> maxChannels ctx"
    and "minRate ctx \<le> rate" and "rate \<le> maxRate ctx"
    and "(length data div 2 div numChannels) mod 2 ^ 32 \<noteq> 0"
  shows "\<exists>buffer. decodeAudioData data ctx rate numChannels = Inr buffer"
proof -
  let ?d = "int16_of_bytes data"
  let ?f = "(of_nat (length data div 2) :: rat) / of_nat numChannels"
  let ?L = "(length data div 2 div numChannels) mod 2 ^ 32"
  let ?b0 = "\<lparr>sampleRate = rate, frames = ?L,
              channels = replicate numChannels (replicate ?L (Val 0))\<rparr>"
  have arr: "new_Int16Array data = Inr ?d"
    using assms(1) by (simp add: new_Int16Array_def)
  have "\<not> (numChannels = 0 \<or> maxChannels ctx < numChannels \<or> to_unsigned_long ?f = 0
              \<or> rate < minRate ctx \<or> maxRate ctx < rate)"
    using assms by (simp add: to_unsigned_long_quotient not_less)
  then have cb: "createBuffer ctx numChannels ?f rate = Inr ?b0"
    unfolding createBuffer_def to_unsigned_long_quotient by (rule if_not_P)
  have "\<exists>buffer. channel_loop ?d numChannels ?f 0 ?b0 = Inr buffer"
    by (rule exI, rule channel_loop_result) simp
  then show ?thesis
    using arr cb by (simp add: decodeAudioData_def length_int16_of_bytes Let_def)
qed

lemma decodeAudioData_no_frame:
  assumes "length data mod 2 = 0" and "(length data div 2 div numChannels) mod 2 ^ 32 = 0"
  shows "decodeAudioData data ctx rate numChannels = Inl (Dom NotSupportedError)"
proof -
  let ?f = "(of_nat (length data div 2) :: rat) / of_nat numChannels"
  have arr: "new_Int16Array data = Inr (int16_of_bytes data)"
    using assms(1) by (simp add: new_Int16Array_def)
  have "to_unsigned_long ?f = 0"
    using assms(2) by (simp add: to_unsigned_long_quotient)
  then have "createBuffer ctx numChannels ?f rate = Inl (Dom NotSupportedError)"
    by (simp add: createBuffer_def)
  then show ?thesis
    using arr by (simp add: decodeAudioData_def length_int16_of_bytes Let_def)
qed

text \<open>
  Claim C1, as the code has it. A payload of whole samples (even byte length, \<open>N\<close> samples)
  decoded for \<open>C\<close> channels, where the context supports the channel count and the rate and
  \<open>N div C\<close> fits the 32-bit length parameter: when there is at least one whole frame
  (\<open>C \<le> N\<close>) the result is a buffer of exactly \<open>C\<close> channel arrays, each of length
  \<open>N div C\<close>, the remainder samples dropped; when there are fewer samples than channels the
  frame count is zero and \<open>createBuffer\<close> refuses it, so the call is rejected with
  \<^verbatim>\<open>NotSupportedError\<close> instead of giving arrays of length zero.
\<close>

theorem decodeAudioData_shape:
  assumes "length data mod 2 = 0"
    and "0 < numChannels" and "numChannels \<le> maxChannels ctx"
    and "minRate ctx \<le> rate" and "rate \<le> maxRate ctx"
    and "length data div 2 div numChannels < 2 ^ 32"
  shows "(numChannels \<le> length data div 2 \<longrightarrow>
            (\<exists>buffer. decodeAudioData data ctx rate numChannels = Inr buffer
               \<and> length (channels buffer) = numChannels
               \<and> map length (channels buffer)
                   = replicate numChannels (length data div 2 div numChannels)
               \<and> frames buffer = length data div 2 div numChannels))
       \<and> (length data div 2 < numChannels \<longrightarrow>
            decodeAudioData data ctx rate numChannels = Inl (Dom NotSupportedError))"
proof (intro conjI impI)
  assume le: "numChannels \<le> length data div 2"
  let ?q = "length data div 2 div numChannels"
  have "0 < ?q"
    using le assms(2) by (simp add: div_greater_zero_iff)
  then have q: "?q mod 2 ^ 32 = ?q" "?q mod 2 ^ 32 \<noteq> 0"
    using assms(6) by simp_all
  obtain buffer where ok: "decodeAudioData data ctx rate numChannels = Inr buffer"
    using decodeAudioData_succeeds [OF assms(1-5) q(2)] by blast
  note shape = decodeAudioData_Inr [OF ok]
  have fr: "frames buffer = ?q"
    using shape q(1) by simp
  have ch: "channels buffer =
             map (\<lambda>c. frame_loop (int16_of_bytes data) numChannels c
                         (of_nat (length data div 2) / of_nat numChannels) 0
                         (replicate ?q (Val 0)))
                 [0..<numChannels]"
    using shape fr by simp
  have "map length (channels buffer) = map (\<lambda>c. ?q) [0..<numChannels]"
    unfolding ch by (simp add: frame_loop_length)
  also have "\<dots> = replicate numChannels ?q"
    by (simp add: map_replicate_const)
  finally have "map length (channels buffer) = replicate numChannels ?q" .
  moreover have "length (channels buffer) = numChannels"
    unfolding ch by simp
  ultimately show "\<exists>buffer. decodeAudioData data ctx rate numChannels = Inr buffer
               \<and> length (channels buffer) = numChannels
               \<and> map length (channels buffer) = replicate numChannels ?q
               \<and> frames buffer = ?q"
    using ok fr by blast
next
  assume "length data div 2 < numChannels"
  then have "(length data div 2 div numChannels) mod 2 ^ 32 = 0"
    by simp
  with assms(1) show "decodeAudioData data ctx rate numChannels = Inl (Dom NotSupportedError)"
    by (rule decodeAudioData_no_frame)
qed

theorem decodeAudioData_shape_witness:
  "\<exists>buffer.
     decodeAudioData [1, 0, 2, 0, 3, 0, 4, 0, 5, 0]
       \<lparr>maxChannels = 32, minRate = 8000, maxRate = 96000\<rparr> 24000 2 = Inr buffer
     \<and> length (channels buffer) = 2
     \<and> map length (channels buffer) = [2, 2]
     \<and> frames buffer = 2"
proof -
  have n: "length [1, 0, 2, 0, 3, 0, 4, 0, 5, 0 :: byte] div 2 = 5"
    by simp
  have q: "(5::nat) div 2 = 2"
    by simp
  from decodeAudioData_shape
    [of "[1, 0, 2, 0, 3, 0, 4, 0, 5, 0]" 2
        "\<lparr>maxChannels = 32, minRate = 8000, maxRate = 96000\<rparr>" 24000]
  show ?thesis
    unfolding n q replicate2 by simp
qed

text \<open>
  The claim as the specification states it (every channel count from 1 on, every payload of
  whole samples) fails where no whole frame exists: the empty payload decoded for two channels
  is rejected, it does not give two arrays of length zero.
\<close>

theorem decodeAudioData_shape_counterexample:
  "decodeAudioData [] \<lparr>maxChannels = 32, minRate = 8000, maxRate = 96000\<rparr> 24000 2
     = Inl (Dom NotSupportedError)"
  by (simp add: decodeAudioData_no_frame)

lemma example_decode:
  assumes "1 \<le> maxChannels ctx" and "minRate ctx \<le> 24000" and "24000 \<le> maxRate ctx"
  shows "decodeAudioData [0x00, 0x40, 0x00, 0xC0] ctx 24000 1
       = Inr \<lparr>sampleRate = 24000, frames = 2, channels = [[Val (1 / 2), Val (- 1 / 2)]]\<rparr>"
proof -
  have arr: "new_Int16Array [0x00, 0x40, 0x00, 0xC0] = Inr [0x4000, 0xC000]"
    by (simp add: new_Int16Array_def)
  have cb: "createBuffer ctx 1 2 24000
       = Inr \<lparr>sampleRate = 24000, frames = 2, channels = [[Val 0, Val 0]]\<rparr>"
    using assms by (simp add: createBuffer_def to_unsigned_long_def replicate2)
  have fl: "frame_loop [0x4000, 0xC000] 1 0 2 0 [Val 0, Val 0] = [Val (1 / 2), Val (- 1 / 2)]"
    by code_simp
  have cl: "channel_loop [0x4000, 0xC000] 1 2 0
              \<lparr>sampleRate = 24000, frames = 2, channels = [[Val 0, Val 0]]\<rparr>
       = Inr \<lparr>sampleRate = 24000, frames = 2, channels = [[Val (1 / 2), Val (- 1 / 2)]]\<rparr>"
    by code_simp
  show ?thesis
    by (simp add: decodeAudioData_def arr cb cl del: One_nat_def)
qed

text \<open>
  Claim C2. Whatever buffer a call returns, every channel below the channel count and every
  frame of the buffer holds \<open>rawSample[i * numChannels + channel] / 32768\<close>, where
  \<open>rawSample\<close> reads the payload as signed 16-bit little-endian integers; and the four bytes
  \<open>00 40 00 C0\<close> (the samples 16384 and -16384) decoded for one channel at 24000 Hz give the
  buffer \<open>[0.5, -0.5]\<close> in every context that supports one channel at that rate.
\<close>

theorem decodeAudioData_deinterleaves:
  "(\<forall>buffer channel i.
      decodeAudioData data ctx rate numChannels = Inr buffer \<longrightarrow>
      channel < numChannels \<longrightarrow> i < frames buffer \<longrightarrow>
        getChannelData buffer channel = Inr (channels buffer ! channel)
        \<and> i < length (channels buffer ! channel)
        \<and> channels buffer ! channel ! i
            = Val (of_int (raw_sample data (i * numChannels + channel)) / 32768))
   \<and> (1 \<le> maxChannels ctx \<longrightarrow> minRate ctx \<le> 24000 \<longrightarrow> 24000 \<le> maxRate ctx \<longrightarrow>
        raw_sample [0x00, 0x40, 0x00, 0xC0] 0 = 16384
        \<and> raw_sample [0x00, 0x40, 0x00, 0xC0] 1 = - 16384
        \<and> decodeAudioData [0x00, 0x40, 0x00, 0xC0] ctx 24000 1
            = Inr \<lparr>sampleRate = 24000, frames = 2,
                   channels = [[Val (1 / 2), Val (- 1 / 2)]]\<rparr>)"
proof (intro conjI allI impI)
  fix buffer channel i
  assume ok: "decodeAudioData data ctx rate numChannels = Inr buffer"
    and c: "channel < numChannels" and i: "i < frames buffer"
  let ?N = "length data div 2"
  let ?d = "int16_of_bytes data"
  let ?f = "(of_nat ?N :: rat) / of_nat numChannels"
  note shape = decodeAudioData_Inr [OF ok]
  have ch: "channels buffer ! channel
             = frame_loop ?d numChannels channel ?f 0 (replicate (frames buffer) (Val 0))"
    using shape c by simp
  show "getChannelData buffer channel = Inr (channels buffer ! channel)"
    using shape c by (simp add: getChannelData_def)
  show len: "i < length (channels buffer ! channel)"
    unfolding ch using i by (simp add: frame_loop_length)
  have "frames buffer \<le> ?N div numChannels"
    using shape by simp
  with i have "Suc i \<le> ?N div numChannels"
    by simp
  then have mult: "Suc i * numChannels \<le> ?N"
    using shape by (simp add: less_eq_div_iff_mult_less_eq)
  then have idx: "i * numChannels + channel < ?N"
    using c by simp
  have "int i < \<lfloor>?f\<rfloor>"
    using \<open>Suc i \<le> ?N div numChannels\<close> by (simp add: floor_divide_of_nat_eq)
  then have "of_int (int i) < ?f"
    by (simp only: less_floor_iff) linarith?
  then have lt: "of_nat i < ?f"
    by simp
  have "channels buffer ! channel ! i = div_32768 (int16_get ?d (i * numChannels + channel))"
    unfolding ch using i lt by (simp add: frame_loop_nth)
  also have "\<dots> = Val (of_int (sint (?d ! (i * numChannels + channel))) / 32768)"
    using idx by (simp add: int16_get_def div_32768_def length_int16_of_bytes)
  also have "sint (?d ! (i * numChannels + channel)) = raw_sample data (i * numChannels + channel)"
    using idx by (rule sint_int16_of_bytes)
  finally show "channels buffer ! channel ! i
      = Val (of_int (raw_sample data (i * numChannels + channel)) / 32768)" .
next
  show "raw_sample [0x00, 0x40, 0x00, 0xC0] 0 = 16384"
    by (simp add: raw_sample_def)
  show "raw_sample [0x00, 0x40, 0x00, 0xC0] 1 = - 16384"
    by (simp add: raw_sample_def)
next
  assume "1 \<le> maxChannels ctx" and "minRate ctx \<le> 24000" and "24000 \<le> maxRate ctx"
  then show "decodeAudioData [0x00, 0x40, 0x00, 0xC0] ctx 24000 1
            = Inr \<lparr>sampleRate = 24000, frames = 2,
                   channels = [[Val (1 / 2), Val (- 1 / 2)]]\<rparr>"
    by (rule example_decode)
qed

theorem decodeAudioData_deinterleaves_witness:
  "decodeAudioData [0x00, 0x40, 0x00, 0xC0] \<lparr>maxChannels = 32, minRate = 8000, maxRate = 96000\<rparr> 24000 1
     = Inr \<lparr>sampleRate = 24000, frames = 2, channels = [[Val (1 / 2), Val (- 1 / 2)]]\<rparr>
   \<and> [[Val (1 / 2), Val (- 1 / 2)]] ! 0 ! 1
       = Val (of_int (raw_sample [0x00, 0x40, 0x00, 0xC0] (1 * 1 + 0)) / 32768)
   \<and> raw_sample [0x00, 0x40, 0x00, 0xC0] 1 = - 16384"
  using decodeAudioData_deinterleaves
    [of "[0x00, 0x40, 0x00, 0xC0]" "\<lparr>maxChannels = 32, minRate = 8000, maxRate = 96000\<rparr>" 24000 1]
  by simp

text \<open>
  Claim C3. A payload of odd byte length never yields a buffer: the
  \<^verbatim>\<open>Int16Array\<close> constructor throws \<^verbatim>\<open>RangeError\<close> (the specification's
  framing error) before anything else happens, whatever the context, rate and channel count.
\<close>

theorem decodeAudioData_odd_length:
  "odd (length data) \<Longrightarrow> decodeAudioData data ctx rate numChannels = Inl (Dom RangeError)"
  by (simp add: decodeAudioData_def new_Int16Array_def odd_iff_mod_2_eq_one)

theorem decodeAudioData_odd_length_witness:
  "odd (length [0x00, 0x40, 0x00 :: byte])
   \<and> decodeAudioData [0x00, 0x40, 0x00] \<lparr>maxChannels = 32, minRate = 8000, maxRate = 96000\<rparr> 24000 1
       = Inl (Dom RangeError)"
  using decodeAudioData_odd_length
    [of "[0x00, 0x40, 0x00]" "\<lparr>maxChannels = 32, minRate = 8000, maxRate = 96000\<rparr>" 24000 1]
  by simp

text \<open>
  Claim C4, as the code has it. The empty payload passes the framing step (the
  \<^verbatim>\<open>Int16Array\<close> has no element, no \<^verbatim>\<open>RangeError\<close>), its frame count is 0, and
  \<open>createBuffer\<close> refuses a length of 0: the call is rejected with
  \<^verbatim>\<open>NotSupportedError\<close> for every context, rate and channel count, and no buffer of
  zero frames is produced.
\<close>

theorem decodeAudioData_empty:
  "new_Int16Array [] = Inr []
   \<and> decodeAudioData [] ctx rate numChannels = Inl (Dom NotSupportedError)"
  by (simp add: decodeAudioData_no_frame) (simp add: new_Int16Array_def)

text \<open>
  The claim as the specification states it fails at the call the application makes (one
  channel, 24000 Hz): the empty payload is rejected.
\<close>

theorem decodeAudioData_empty_counterexample:
  "decodeAudioData [] \<lparr>maxChannels = 32, minRate = 8000, maxRate = 96000\<rparr> 24000 1
     = Inl (Dom NotSupportedError)"
  by (simp add: decodeAudioData_def new_Int16Array_def createBuffer_def to_unsigned_long_def)

section \<open>Properties of the synthesis service\<close>

text \<open>
  Claim C10. \<^verbatim>\<open>synthesizeSpeech\<close> either returns a non-empty string or throws an
  \<^verbatim>\<open>Error\<close>, whatever the upstream call did; and a response whose audio data is
  missing at any level, or is the empty string, becomes the thrown error
  "Failed to synthesize speech: API did not return audio data.".
\<close>

theorem synthesizeSpeech_payload:
  "((\<exists>base64Audio. synthesizeSpeech u = Inr base64Audio \<and> base64Audio \<noteq> [])
      \<or> (\<exists>m. synthesizeSpeech u = Inl (JsError m)))
   \<and> (audio_data r = None \<or> audio_data r = Some [] \<longrightarrow>
        synthesizeSpeech (Resolves r)
          = Inl (JsError (js ''Failed to synthesize speech: ''
                          @ js ''API did not return audio data.'')))"
proof
  show "(\<exists>base64Audio. synthesizeSpeech u = Inr base64Audio \<and> base64Audio \<noteq> [])
      \<or> (\<exists>m. synthesizeSpeech u = Inl (JsError m))"
  proof (cases "synthesize_try u")
    case (Inl t)
    then show ?thesis
      by (cases t) (simp_all add: synthesizeSpeech_def)
  next
    case (Inr base64Audio)
    then have "base64Audio \<noteq> []"
      by (auto simp: synthesize_try_def split: upstream.splits option.splits if_splits)
    with Inr show ?thesis
      by (simp add: synthesizeSpeech_def)
  qed
  show "audio_data r = None \<or> audio_data r = Some [] \<longrightarrow>
        synthesizeSpeech (Resolves r)
          = Inl (JsError (js ''Failed to synthesize speech: ''
                          @ js ''API did not return audio data.''))"
    by (auto simp: synthesizeSpeech_def synthesize_try_def)
qed

theorem synthesizeSpeech_payload_witness:
  "synthesizeSpeech (Resolves (Response None))
     = Inl (JsError (js ''Failed to synthesize speech: '' @ js ''API did not return audio data.''))
   \<and> synthesizeSpeech
        (Resolves (Response (Some [Candidate (Some (Content (Some [Part (Some (InlineData (Some [])))])))])))
     = Inl (JsError (js ''Failed to synthesize speech: '' @ js ''API did not return audio data.''))"
  using synthesizeSpeech_payload [of "Resolves (Response None)" "Response None"]
    synthesizeSpeech_payload [of "Resolves (Response None)"
      "Response (Some [Candidate (Some (Content (Some [Part (Some (InlineData (Some [])))])))])"]
  by simp

section \<open>Properties of the playback controller\<close>

lemma try_block_shape:
  "(\<exists>e. try_block pf u s = (Some e, s))
   \<or> (\<exists>e ctx. try_block pf u s = (Some e, s\<lparr>audioContextRef := Some ctx\<rparr>))
   \<or> (\<exists>ctx audioBuffer.
        try_block pf u s =
         (None, s\<lparr>audioContextRef := Some ctx,
                  nodes := nodes s @ [\<lparr>node_buffer = audioBuffer, connected = True,
                                       ended = False, notified = False\<rparr>],
                  audioSourceRef := Some (length (nodes s)),
                  isPlaying := True\<rparr>))"
proof (cases "synthesizeSpeech u")
  case (Inl e)
  then show ?thesis by (simp add: try_block_def)
next
  case (Inr base64Audio)
  define ctx where "ctx = (case audioContextRef s of None \<Rightarrow> newAudioContext pf | Some c \<Rightarrow> c)"
  show ?thesis
  proof (cases "decode base64Audio")
    case (Inl e)
    with Inr have "try_block pf u s = (Some e, s\<lparr>audioContextRef := Some ctx\<rparr>)"
      by (simp add: try_block_def ctx_def)
    then show ?thesis by blast
  next
    case bytes: (Inr bytes)
    show ?thesis
    proof (cases "decodeAudioData bytes ctx 24000 1")
      case (Inl e)
      with Inr bytes have "try_block pf u s = (Some e, s\<lparr>audioContextRef := Some ctx\<rparr>)"
        by (simp add: try_block_def ctx_def)
      then show ?thesis by blast
    next
      case buf: (Inr audioBuffer)
      with Inr bytes have "try_block pf u s =
         (None, s\<lparr>audioContextRef := Some ctx,
                  nodes := nodes s @ [\<lparr>node_buffer = audioBuffer, connected = True,
                                       ended = False, notified = False\<rparr>],
                  audioSourceRef := Some (length (nodes s)),
                  isPlaying := True\<rparr>)"
        by (simp add: try_block_def ctx_def)
      then show ?thesis by blast
    qed
  qed
qed

lemma ref_consistent_initial: "ref_consistent initial"
  by (simp add: ref_consistent_def initial_def)

lemma ref_consistent_stopPlayback: "ref_consistent s \<Longrightarrow> ref_consistent (stopPlayback s)"
  unfolding ref_consistent_def stopPlayback_def
  by (cases "audioSourceRef s") auto

lemma ref_consistent_begin:
  assumes c: "ref_consistent s"
  shows "ref_consistent (handleSynthesizeAndPlay_begin s)"
proof (cases "isLoading s")
  case True
  with c show ?thesis by (simp add: handleSynthesizeAndPlay_begin_def)
next
  case False
  have "ref_consistent (stopPlayback s)" using c by (rule ref_consistent_stopPlayback)
  moreover have "requests s = 0" using c False by (simp add: ref_consistent_def)
  moreover have "audioSourceRef (stopPlayback s) = None"
    by (simp add: stopPlayback_def split: option.split)
  ultimately show ?thesis
    using False by (simp add: handleSynthesizeAndPlay_begin_def ref_consistent_def)
qed

lemma ref_consistent_resume:
  assumes c: "ref_consistent s" and r: "requests s \<noteq> 0"
  shows "ref_consistent (handleSynthesizeAndPlay_resume pf u s)"
proof -
  have load: "isLoading s"
    using c r by (auto simp: ref_consistent_def split: if_splits)
  then have ref: "audioSourceRef s = None" and req: "requests s = 1"
    using c by (auto simp: ref_consistent_def)
  consider (fails) e where "try_block pf u s = (Some e, s)"
    | (fails_late) e ctx where "try_block pf u s = (Some e, s\<lparr>audioContextRef := Some ctx\<rparr>)"
    | (plays) ctx audioBuffer where "try_block pf u s =
         (None, s\<lparr>audioContextRef := Some ctx,
                  nodes := nodes s @ [\<lparr>node_buffer = audioBuffer, connected = True,
                                       ended = False, notified = False\<rparr>],
                  audioSourceRef := Some (length (nodes s)),
                  isPlaying := True\<rparr>)"
    using try_block_shape [of pf u s] by blast
  then show ?thesis
  proof cases
    case fails
    then show ?thesis
      using c ref by (simp add: handleSynthesizeAndPlay_resume_def catch_block_def ref_consistent_def)
  next
    case fails_late
    then show ?thesis
      using c ref by (simp add: handleSynthesizeAndPlay_resume_def catch_block_def ref_consistent_def)
  next
    case plays
    then show ?thesis
      using req by (simp add: handleSynthesizeAndPlay_resume_def ref_consistent_def)
  qed
qed

lemma ref_consistent_fire:
  assumes "ref_consistent s" and "fire pf e s = Some s'"
  shows "ref_consistent s'"
proof (cases e)
  case Play
  with assms show ?thesis by (auto intro: ref_consistent_begin)
next
  case Stop
  with assms show ?thesis by (auto intro: ref_consistent_stopPlayback)
next
  case Click
  with assms show ?thesis
    by (auto intro: ref_consistent_begin ref_consistent_stopPlayback split: if_splits)
next
  case (Settled u)
  with assms show ?thesis
    by (auto intro: ref_consistent_resume split: if_splits)
next
  case (Finish k)
  with assms have k: "k < length (nodes s)"
    and s': "s' = s\<lparr>nodes := (nodes s)[k := (nodes s ! k)\<lparr>ended := True\<rparr>]\<rparr>"
    by (auto split: if_splits)
  show ?thesis
    using assms(1) k unfolding s' ref_consistent_def by (auto simp: nth_list_update)
next
  case (Ended k)
  with assms have
    s': "s' = source_onended (s\<lparr>nodes := (nodes s)[k := (nodes s ! k)\<lparr>notified := True\<rparr>]\<rparr>)"
    by (auto split: if_splits)
  show ?thesis
    using assms(1) unfolding s' ref_consistent_def source_onended_def by simp
qed

lemma reachable_ref_consistent: "reachable pf s \<Longrightarrow> ref_consistent s"
  by (induction rule: reachable.induct) (auto intro: ref_consistent_initial ref_consistent_fire)

lemma reachable_timely_reachable: "reachable_timely pf s \<Longrightarrow> reachable pf s"
  by (induction rule: reachable_timely.induct) (auto intro: reachable.intros)

lemma consistent_initial: "consistent initial"
  by (simp add: consistent_def ref_consistent_def initial_def)

lemma consistent_stopPlayback: "consistent s \<Longrightarrow> consistent (stopPlayback s)"
  unfolding consistent_def ref_consistent_def stopPlayback_def
  by (cases "audioSourceRef s") (auto simp: nth_list_update)

lemma consistent_begin: "consistent s \<Longrightarrow> consistent (handleSynthesizeAndPlay_begin s)"
proof -
  assume c: "consistent s"
  show ?thesis
  proof (cases "isLoading s")
    case True
    with c show ?thesis by (simp add: handleSynthesizeAndPlay_begin_def)
  next
    case False
    have "consistent (stopPlayback s)" using c by (rule consistent_stopPlayback)
    moreover have "requests s = 0" using c False by (simp add: consistent_def ref_consistent_def)
    moreover have "audioSourceRef (stopPlayback s) = None"
      by (simp add: stopPlayback_def split: option.split)
    ultimately show ?thesis
      using False by (simp add: handleSynthesizeAndPlay_begin_def consistent_def ref_consistent_def)
  qed
qed

lemma ended_pending_iff:
  "ended_pending s \<longleftrightarrow> (\<exists>k < length (nodes s). ended (nodes s ! k) \<and> \<not> notified (nodes s ! k))"
  unfolding ended_pending_def list_ex_iff
  by (metis in_set_conv_nth)

lemma consistent_resume:
  assumes c: "consistent s" and r: "requests s \<noteq> 0" and p: "\<not> ended_pending s"
  shows "consistent (handleSynthesizeAndPlay_resume pf u s)"
proof -
  have load: "isLoading s"
    using c r by (auto simp: consistent_def ref_consistent_def split: if_splits)
  then have ref: "audioSourceRef s = None" and play: "\<not> isPlaying s" and req: "requests s = 1"
    using c by (auto simp: consistent_def ref_consistent_def)
  have silent: "\<And>k. k < length (nodes s) \<Longrightarrow> ended (nodes s ! k) \<and> notified (nodes s ! k)"
    using c ref p unfolding consistent_def ref_consistent_def ended_pending_iff by auto
  consider (fails) e where "try_block pf u s = (Some e, s)"
    | (fails_late) e ctx where "try_block pf u s = (Some e, s\<lparr>audioContextRef := Some ctx\<rparr>)"
    | (plays) ctx audioBuffer where "try_block pf u s =
         (None, s\<lparr>audioContextRef := Some ctx,
                  nodes := nodes s @ [\<lparr>node_buffer = audioBuffer, connected = True,
                                       ended = False, notified = False\<rparr>],
                  audioSourceRef := Some (length (nodes s)),
                  isPlaying := True\<rparr>)"
    using try_block_shape [of pf u s] by blast
  then show ?thesis
  proof cases
    case fails
    then show ?thesis
      using c ref by (simp add: handleSynthesizeAndPlay_resume_def catch_block_def consistent_def ref_consistent_def)
  next
    case fails_late
    then show ?thesis
      using c ref by (simp add: handleSynthesizeAndPlay_resume_def catch_block_def consistent_def ref_consistent_def)
  next
    case plays
    then show ?thesis
      using silent req
      by (auto simp: handleSynthesizeAndPlay_resume_def consistent_def ref_consistent_def nth_append)
  qed
qed

lemma consistent_Finish:
  assumes c: "consistent s" and k: "k < length (nodes s)" "\<not> ended (nodes s ! k)"
  shows "consistent (s\<lparr>nodes := (nodes s)[k := (nodes s ! k)\<lparr>ended := True\<rparr>]\<rparr>)"
proof -
  have ref: "audioSourceRef s = Some k"
    using c k unfolding consistent_def ref_consistent_def by blast
  show ?thesis
    using c ref unfolding consistent_def ref_consistent_def by (auto simp: nth_list_update)
qed

lemma consistent_Ended:
  assumes c: "consistent s"
    and k: "k < length (nodes s)" "ended (nodes s ! k)" "\<not> notified (nodes s ! k)"
  shows "consistent (source_onended (s\<lparr>nodes := (nodes s)[k := (nodes s ! k)\<lparr>notified := True\<rparr>]\<rparr>))"
proof -
  have ref: "audioSourceRef s = Some k \<or> audioSourceRef s = None"
    using c k unfolding consistent_def ref_consistent_def by blast
  have others: "\<And>j. j < length (nodes s) \<Longrightarrow> j \<noteq> k \<Longrightarrow> ended (nodes s ! j)"
    using c ref unfolding consistent_def ref_consistent_def by auto
  show ?thesis
    using c k others unfolding consistent_def ref_consistent_def source_onended_def
    by (auto simp: nth_list_update)
qed

lemma consistent_fire:
  assumes "consistent s" and "timely e s" and "fire pf e s = Some s'"
  shows "consistent s'"
proof (cases e)
  case Play
  with assms show ?thesis by (auto intro: consistent_begin)
next
  case Stop
  with assms show ?thesis by (auto intro: consistent_stopPlayback)
next
  case Click
  with assms show ?thesis
    by (auto intro: consistent_begin consistent_stopPlayback split: if_splits)
next
  case (Settled u)
  with assms show ?thesis
    by (auto intro: consistent_resume split: if_splits)
next
  case (Finish k)
  with assms show ?thesis
    by (auto intro: consistent_Finish split: if_splits)
next
  case (Ended k)
  with assms show ?thesis
    by (auto intro: consistent_Ended split: if_splits)
qed

lemma reachable_timely_consistent: "reachable_timely pf s \<Longrightarrow> consistent s"
  by (induction rule: reachable_timely.induct) (auto intro: consistent_initial consistent_fire)

lemma active_consistent:
  assumes "consistent s"
  shows "active s = (case audioSourceRef s of
                       None \<Rightarrow> []
                     | Some k \<Rightarrow> if ended (nodes s ! k) then [] else [k])"
proof (cases "audioSourceRef s")
  case None
  then have "\<And>k. k < length (nodes s) \<Longrightarrow> ended (nodes s ! k)"
    using assms unfolding consistent_def ref_consistent_def by simp
  then have "filter (\<lambda>k. \<not> ended (nodes s ! k)) [0..<length (nodes s)] = []"
    by (simp add: filter_empty_conv)
  with None show ?thesis by (simp add: active_def)
next
  case (Some k)
  then have k: "k < length (nodes s)"
    using assms unfolding consistent_def ref_consistent_def by simp
  have others: "\<And>j. j < length (nodes s) \<Longrightarrow> j \<noteq> k \<Longrightarrow> ended (nodes s ! j)"
    using assms Some unfolding consistent_def ref_consistent_def by simp
  have "[0..<length (nodes s)] = [0..<k + (length (nodes s) - k)]"
    using k by simp
  also have "\<dots> = [0..<k] @ [k..<k + (length (nodes s) - k)]"
    by (rule upt_add_eq_append) simp
  also have "[k..<k + (length (nodes s) - k)] = k # [Suc k..<length (nodes s)]"
    using k by (simp add: upt_conv_Cons)
  finally have split: "[0..<length (nodes s)] = [0..<k] @ k # [Suc k..<length (nodes s)]" .
  have l: "filter (\<lambda>j. \<not> ended (nodes s ! j)) [0..<k] = []"
    using k others by (auto simp: filter_empty_conv)
  have r: "filter (\<lambda>j. \<not> ended (nodes s ! j)) [Suc k..<length (nodes s)] = []"
    using others by (auto simp: filter_empty_conv)
  show ?thesis
    unfolding active_def by (subst split) (simp add: Some l r)
qed


lemma run_reachable_from: "reachable pf s \<Longrightarrow> run pf es s = Some s' \<Longrightarrow> reachable pf s'"
proof (induction es arbitrary: s)
  case Nil
  then show ?case by simp
next
  case (Cons e es)
  then obtain s1 where f: "fire pf e s = Some s1" and r: "run pf es s1 = Some s'"
    by (auto split: option.splits)
  from Cons.prems(1) f have "reachable pf s1" by (rule reachable.step)
  then show ?case using r by (rule Cons.IH)
qed

lemma run_reachable: "run pf es initial = Some s \<Longrightarrow> reachable pf s"
  using reachable.start by (rule run_reachable_from)

lemma run_timely_from:
  "reachable_timely pf s \<Longrightarrow> timely_run pf es s \<Longrightarrow> run pf es s = Some s' \<Longrightarrow>
   reachable_timely pf s'"
proof (induction es arbitrary: s)
  case Nil
  then show ?case by simp
next
  case (Cons e es)
  then obtain s1 where f: "fire pf e s = Some s1" and r: "run pf es s1 = Some s'"
    by (auto split: option.splits)
  from Cons.prems(2) f have t: "timely e s" and ts: "timely_run pf es s1"
    by simp_all
  from Cons.prems(1) t f have "reachable_timely pf s1" by (rule reachable_timely.step)
  then show ?case using ts r by (rule Cons.IH)
qed

lemma run_timely:
  "timely_run pf es initial \<Longrightarrow> run pf es initial = Some s \<Longrightarrow> reachable_timely pf s"
  using reachable_timely.start by (rule run_timely_from)

lemma consistent_ref_consistent: "consistent s \<Longrightarrow> ref_consistent s"
  by (simp add: consistent_def)

lemma active_stopPlayback:
  assumes "consistent s"
  shows "active (stopPlayback s) = []"
proof -
  have c: "consistent (stopPlayback s)"
    using assms by (rule consistent_stopPlayback)
  have "audioSourceRef (stopPlayback s) = None"
    by (simp add: stopPlayback_def split: option.split)
  then show ?thesis
    by (simp add: active_consistent [OF c])
qed

lemma stopPlayback_node:
  assumes "audioSourceRef s = Some k" and "k < length (nodes s)"
  shows "ended (nodes (stopPlayback s) ! k) \<and> \<not> connected (nodes (stopPlayback s) ! k)"
  using assms by (simp add: stopPlayback_def)

lemma begin_not_loading:
  "\<not> isLoading s \<Longrightarrow>
   handleSynthesizeAndPlay_begin s
     = (stopPlayback s)\<lparr>isLoading := True, error := None, requests := Suc (requests s)\<rparr>"
  by (simp add: handleSynthesizeAndPlay_begin_def)

text \<open>What a settled request leaves when the attempt fails and when it succeeds.\<close>

lemma resume_failure:
  assumes "fst (try_block pf u s) = Some err"
  shows "handleSynthesizeAndPlay_resume pf u s
       = (snd (try_block pf u s))
           \<lparr>error := Some (if message pf err = [] then js ''An unexpected error occurred.''
                           else message pf err),
            isPlaying := False, isLoading := False,
            requests := requests (snd (try_block pf u s)) - 1\<rparr>"
  using assms
  by (cases "try_block pf u s") (simp add: handleSynthesizeAndPlay_resume_def catch_block_def)

lemma try_block_failure_state:
  assumes "fst (try_block pf u s) = Some err"
  shows "nodes (snd (try_block pf u s)) = nodes s
       \<and> audioSourceRef (snd (try_block pf u s)) = audioSourceRef s
       \<and> requests (snd (try_block pf u s)) = requests s"
  using assms try_block_shape [of pf u s] by auto

lemma try_block_success_state:
  assumes "fst (try_block pf u s) = None"
  shows "\<exists>ctx audioBuffer. snd (try_block pf u s) =
           s\<lparr>audioContextRef := Some ctx,
             nodes := nodes s @ [\<lparr>node_buffer = audioBuffer, connected = True,
                                  ended = False, notified = False\<rparr>],
             audioSourceRef := Some (length (nodes s)),
             isPlaying := True\<rparr>"
  using assms try_block_shape [of pf u s] by fastforce

lemma try_block_fails_iff:
  "fst (try_block pf u s) = Some err \<longleftrightarrow>
     synthesizeSpeech u = Inl err
     \<or> (\<exists>base64Audio. synthesizeSpeech u = Inr base64Audio \<and>
          (decode base64Audio = Inl err
           \<or> (\<exists>bytes. decode base64Audio = Inr bytes \<and>
                decodeAudioData bytes
                  (case audioContextRef s of None \<Rightarrow> newAudioContext pf | Some c \<Rightarrow> c)
                  24000 1 = Inl err)))"
  by (auto simp: try_block_def Let_def split: sum.splits)

text \<open>A run that plays one sample of silence, for the examples below.\<close>

lemma js_AAA: "js ''AAA='' = [65, 65, 65, 61]"
  by (simp add: js_def)

lemma forgiving_AAA: "forgiving_base64_decode [65, 65, 65, 61] = Some [0, 0]"
  by (simp add: forgiving_base64_decode_def is_ascii_whitespace_def strip_padding_def b64_value_def)

lemma atob_AAA: "atob [65, 65, 65, 61] = Inr [0, 0]"
  by (simp add: atob_def forgiving_AAA)

lemma decode_loop_AAA: "decode_loop [0, 0] (Suc (Suc 0)) 0 [0, 0] = [0, 0]"
  by (simp add: decode_loop.simps)

lemma decode_AAA: "decode (js ''AAA='') = Inr [0, 0]"
  by (simp add: decode_def js_AAA atob_AAA decode_loop_AAA)


lemma decodeAudioData_silence: "decodeAudioData [0, 0] \<lparr>maxChannels = 32, minRate = 8000, maxRate = 96000\<rparr> 24000 1
     = Inr \<lparr>sampleRate = 24000, frames = 1, channels = [[Val 0]]\<rparr>"
proof -
  have arr: "new_Int16Array [0, 0] = Inr [0]"
    by (simp add: new_Int16Array_def)
  have cb: "createBuffer \<lparr>maxChannels = 32, minRate = 8000, maxRate = 96000\<rparr> 1 1 24000
       = Inr \<lparr>sampleRate = 24000, frames = 1, channels = [[Val 0]]\<rparr>"
    by (simp add: createBuffer_def to_unsigned_long_def)
  have fl: "frame_loop [0] 1 0 1 0 [Val 0] = [Val 0]"
    by (subst frame_loop.simps, simp add: f32_set_def div_32768_def int16_get_def)+
  have cl: "channel_loop [0] 1 1 0 \<lparr>sampleRate = 24000, frames = 1, channels = [[Val 0]]\<rparr>
       = Inr \<lparr>sampleRate = 24000, frames = 1, channels = [[Val 0]]\<rparr>"
    by (subst channel_loop.simps, simp add: getChannelData_def fl del: One_nat_def)+
  show ?thesis
    by (simp add: decodeAudioData_def arr cb cl del: One_nat_def)
qed

lemma example_try:
  assumes "audioContextRef s = None \<or> audioContextRef s = Some \<lparr>maxChannels = 32, minRate = 8000, maxRate = 96000\<rparr>"
  shows "try_block \<lparr>newAudioContext = \<lparr>maxChannels = 32, minRate = 8000, maxRate = 96000\<rparr>,
           dom_message = (\<lambda>d. js ''DOMException'')\<rparr>
     (Resolves (Response (Some [Candidate (Some (Content (Some
              [Part (Some (InlineData (Some (js ''AAA=''))))])))]))) s =
   (None, s\<lparr>audioContextRef := Some \<lparr>maxChannels = 32, minRate = 8000, maxRate = 96000\<rparr>,
            nodes := nodes s @ [\<lparr>node_buffer = \<lparr>sampleRate = 24000, frames = 1, channels = [[Val 0]]\<rparr>,
                       connected = True, ended = False, notified = False\<rparr>],
            audioSourceRef := Some (length (nodes s)),
            isPlaying := True\<rparr>)"
proof -
  have "synthesizeSpeech (Resolves (Response (Some [Candidate (Some (Content (Some
              [Part (Some (InlineData (Some (js ''AAA=''))))])))]))) = Inr (js ''AAA='')"
    by (simp add: synthesizeSpeech_def synthesize_try_def js_AAA)
  moreover have "(case audioContextRef s of
                    None \<Rightarrow> newAudioContext \<lparr>newAudioContext = \<lparr>maxChannels = 32, minRate = 8000, maxRate = 96000\<rparr>,
           dom_message = (\<lambda>d. js ''DOMException'')\<rparr>
                  | Some c \<Rightarrow> c) = \<lparr>maxChannels = 32, minRate = 8000, maxRate = 96000\<rparr>"
    using assms by auto
  ultimately show ?thesis
    by (simp add: try_block_def decode_AAA decodeAudioData_silence del: One_nat_def)
qed

lemma example_playing:
  "run \<lparr>newAudioContext = \<lparr>maxChannels = 32, minRate = 8000, maxRate = 96000\<rparr>,
            dom_message = (\<lambda>d. js ''DOMException'')\<rparr>
     [Play, Settled (Resolves (Response (Some [Candidate (Some (Content (Some
              [Part (Some (InlineData (Some (js ''AAA=''))))])))])))]
     initial
   = Some \<lparr>isLoading = False, isPlaying = True, error = None,
            audioContextRef = Some \<lparr>maxChannels = 32, minRate = 8000, maxRate = 96000\<rparr>,
            audioSourceRef = Some 0,
            nodes = [\<lparr>node_buffer = \<lparr>sampleRate = 24000, frames = 1, channels = [[Val 0]]\<rparr>,
                       connected = True, ended = False, notified = False\<rparr>],
            requests = 0\<rparr>"
  by (simp add: initial_def handleSynthesizeAndPlay_begin_def stopPlayback_def
      handleSynthesizeAndPlay_resume_def example_try)

text \<open>
  Claim C7. \<^verbatim>\<open>stopPlayback\<close> run twice leaves the same state as run once (the whole
  state, the playing flag and the source ref included), from every state; it changes nothing
  when the ref is empty, which is the case in every state the application reaches with the
  playing flag off.
\<close>

theorem stopPlayback_idempotent:
  "stopPlayback (stopPlayback s) = stopPlayback s
   \<and> (audioSourceRef s = None \<longrightarrow> stopPlayback s = s)
   \<and> (reachable pf s \<longrightarrow> \<not> isPlaying s \<longrightarrow> stopPlayback s = s)"
proof (intro conjI impI)
  have "audioSourceRef (stopPlayback s) = None"
    by (simp add: stopPlayback_def split: option.split)
  then show "stopPlayback (stopPlayback s) = stopPlayback s"
    by (simp add: stopPlayback_def [of "stopPlayback s"])
  show "stopPlayback s = s" if "audioSourceRef s = None"
    using that by (simp add: stopPlayback_def)
  show "stopPlayback s = s" if "reachable pf s" and "\<not> isPlaying s"
  proof -
    from that(1) have "ref_consistent s" by (rule reachable_ref_consistent)
    with that(2) have "audioSourceRef s = None"
      unfolding ref_consistent_def by simp
    then show ?thesis by (simp add: stopPlayback_def)
  qed
qed

theorem stopPlayback_idempotent_witness:
  "(\<exists>s. run \<lparr>newAudioContext = \<lparr>maxChannels = 32, minRate = 8000, maxRate = 96000\<rparr>,
            dom_message = (\<lambda>d. js ''DOMException'')\<rparr>
          [Play, Settled (Resolves (Response (Some [Candidate (Some (Content (Some
              [Part (Some (InlineData (Some (js ''AAA=''))))])))])))]
          initial = Some s
        \<and> isPlaying s \<and> audioSourceRef s = Some 0
        \<and> stopPlayback (stopPlayback s) = stopPlayback s
        \<and> \<not> isPlaying (stopPlayback s) \<and> audioSourceRef (stopPlayback s) = None)
   \<and> \<not> isPlaying initial \<and> audioSourceRef initial = None \<and> stopPlayback initial = initial"
proof -
  let ?pf = "\<lparr>newAudioContext = \<lparr>maxChannels = 32, minRate = 8000, maxRate = 96000\<rparr>,
            dom_message = (\<lambda>d. js ''DOMException'')\<rparr>"
  let ?s = "\<lparr>isLoading = False, isPlaying = True, error = None,
            audioContextRef = Some \<lparr>maxChannels = 32, minRate = 8000, maxRate = 96000\<rparr>,
            audioSourceRef = Some 0,
            nodes = [\<lparr>node_buffer = \<lparr>sampleRate = 24000, frames = 1, channels = [[Val 0]]\<rparr>,
                       connected = True, ended = False, notified = False\<rparr>],
            requests = 0\<rparr>"
  have twice: "stopPlayback (stopPlayback ?s) = stopPlayback ?s"
    using stopPlayback_idempotent [of ?s ?pf] by (rule conjunct1)
  have idle: "stopPlayback initial = initial"
    using stopPlayback_idempotent [of initial ?pf] reachable.start [of ?pf]
    by (simp add: initial_def)
  have "isPlaying ?s \<and> audioSourceRef ?s = Some 0
        \<and> \<not> isPlaying (stopPlayback ?s) \<and> audioSourceRef (stopPlayback ?s) = None"
    by (simp add: stopPlayback_def)
  with example_playing twice have
    "\<exists>s. run ?pf [Play, Settled (Resolves (Response (Some [Candidate (Some (Content (Some
              [Part (Some (InlineData (Some (js ''AAA=''))))])))])))] initial = Some s
        \<and> isPlaying s \<and> audioSourceRef s = Some 0
        \<and> stopPlayback (stopPlayback s) = stopPlayback s
        \<and> \<not> isPlaying (stopPlayback s) \<and> audioSourceRef (stopPlayback s) = None"
    by blast
  with idle show ?thesis
    by (simp add: initial_def)
qed

lemma settled_enabled:
  assumes "fire pf (Settled u) s = Some s'"
  shows "requests s \<noteq> 0" and "s' = handleSynthesizeAndPlay_resume pf u s"
  using assms by (auto split: if_splits)

lemma settled_playing:
  assumes c: "consistent s" and t: "\<not> ended_pending s"
    and f: "fire pf (Settled u) s = Some s'" and p: "isPlaying s'"
  shows "active s' = [length (nodes s)] \<and> audioSourceRef s' = Some (length (nodes s))"
proof -
  note en = settled_enabled [OF f]
  have c': "consistent s'"
    using c _ f by (rule consistent_fire) (simp add: t)
  have ok: "fst (try_block pf u s) = None"
  proof (cases "fst (try_block pf u s)")
    case None
    then show ?thesis .
  next
    case (Some err)
    then have "\<not> isPlaying s'"
      unfolding en(2) by (simp add: resume_failure)
    with p show ?thesis by simp
  qed
  then obtain ctx audioBuffer where st: "snd (try_block pf u s) =
           s\<lparr>audioContextRef := Some ctx,
             nodes := nodes s @ [\<lparr>node_buffer = audioBuffer, connected = True,
                                  ended = False, notified = False\<rparr>],
             audioSourceRef := Some (length (nodes s)),
             isPlaying := True\<rparr>"
    using try_block_success_state by blast
  have s': "s' = (snd (try_block pf u s))\<lparr>isLoading := False,
                  requests := requests (snd (try_block pf u s)) - 1\<rparr>"
    unfolding en(2) using ok
    by (cases "try_block pf u s") (simp add: handleSynthesizeAndPlay_resume_def)
  have ref: "audioSourceRef s' = Some (length (nodes s))"
    unfolding s' st by simp
  have "\<not> ended (nodes s' ! length (nodes s))"
    unfolding s' st by simp
  with ref show ?thesis
    by (simp add: active_consistent [OF c'])
qed

lemma active_begin:
  assumes c: "consistent s"
  shows "active (handleSynthesizeAndPlay_begin s) = []"
proof (cases "isLoading s")
  case True
  with c have "audioSourceRef s = None"
    unfolding consistent_def ref_consistent_def by simp
  with True show ?thesis
    by (simp add: handleSynthesizeAndPlay_begin_def active_consistent [OF c])
next
  case False
  have "active (handleSynthesizeAndPlay_begin s) = active (stopPlayback s)"
    unfolding begin_not_loading [OF False] by (simp add: active_def)
  then show ?thesis
    using active_stopPlayback [OF c] by simp
qed

text \<open>
  Claim C8, as the code has it. Along timely runs at most one source sounds, a source that
  sounds is the one in the ref, and nothing sounds once \<^verbatim>\<open>handleSynthesizeAndPlay\<close> has
  passed its \<^verbatim>\<open>stopPlayback()\<close> or \<^verbatim>\<open>stopPlayback\<close> has run; a timely response
  that starts a source leaves exactly that one sounding. In whatever order the events come:
  the ref points to an existing source whose \<^verbatim>\<open>ended\<close> event is still to come, the
  playing flag is on exactly when the ref is set, \<^verbatim>\<open>handleSynthesizeAndPlay\<close> called
  with a source in the ref stops and disconnects it and clears the ref before the request is
  sent, and every way into the idle state clears the ref: a settled request that did not
  start a source, the \<^verbatim>\<open>ended\<close> event of a source, and \<^verbatim>\<open>stopPlayback\<close>.
\<close>

theorem one_session_invariant:
  "(reachable_timely pf s \<longrightarrow>
       length (active s) \<le> 1
     \<and> (\<forall>k. k \<in> set (active s) \<longrightarrow> audioSourceRef s = Some k)
     \<and> active (handleSynthesizeAndPlay_begin s) = []
     \<and> active (stopPlayback s) = [])
   \<and> (reachable_timely pf s \<longrightarrow> \<not> ended_pending s \<longrightarrow>
        fire pf (Settled u) s = Some s' \<longrightarrow> isPlaying s' \<longrightarrow>
          active s' = [length (nodes s)] \<and> audioSourceRef s' = Some (length (nodes s)))
   \<and> (reachable pf s \<longrightarrow>
       (\<forall>k. audioSourceRef s = Some k \<longrightarrow> k < length (nodes s) \<and> \<not> notified (nodes s ! k))
     \<and> (isPlaying s \<longleftrightarrow> audioSourceRef s \<noteq> None))
   \<and> (reachable pf s \<longrightarrow> audioSourceRef s = Some k \<longrightarrow>
        audioSourceRef (handleSynthesizeAndPlay_begin s) = None
      \<and> ended (nodes (handleSynthesizeAndPlay_begin s) ! k)
      \<and> \<not> connected (nodes (handleSynthesizeAndPlay_begin s) ! k))
   \<and> (reachable pf s \<longrightarrow> fire pf (Settled u) s = Some s' \<longrightarrow> \<not> isPlaying s' \<longrightarrow>
        audioSourceRef s' = None)
   \<and> (fire pf (Ended k) s = Some s' \<longrightarrow> audioSourceRef s' = None \<and> \<not> isPlaying s')
   \<and> (reachable pf s \<longrightarrow>
        audioSourceRef (stopPlayback s) = None \<and> \<not> isPlaying (stopPlayback s))"
proof (intro conjI impI)
  assume "reachable_timely pf s"
  then have c: "consistent s" by (rule reachable_timely_consistent)
  note a = active_consistent [OF c]
  show "length (active s) \<le> 1"
    unfolding a by (simp split: option.split)
  show "\<forall>k. k \<in> set (active s) \<longrightarrow> audioSourceRef s = Some k"
    unfolding a by (cases "audioSourceRef s") auto
  show "active (handleSynthesizeAndPlay_begin s) = []"
    using c by (rule active_begin)
  show "active (stopPlayback s) = []"
    using c by (rule active_stopPlayback)
next
  assume "reachable_timely pf s" and t: "\<not> ended_pending s"
    and f: "fire pf (Settled u) s = Some s'" and p: "isPlaying s'"
  then have c: "consistent s" by (simp add: reachable_timely_consistent)
  from settled_playing [OF c t f p]
  show "active s' = [length (nodes s)]" and "audioSourceRef s' = Some (length (nodes s))"
    by simp_all
next
  assume "reachable pf s"
  then have c: "ref_consistent s" by (rule reachable_ref_consistent)
  show "\<forall>k. audioSourceRef s = Some k \<longrightarrow> k < length (nodes s) \<and> \<not> notified (nodes s ! k)"
    using c unfolding ref_consistent_def by simp
  show "isPlaying s \<longleftrightarrow> audioSourceRef s \<noteq> None"
    using c unfolding ref_consistent_def by simp
next
  assume "reachable pf s" and k: "audioSourceRef s = Some k"
  then have c: "ref_consistent s" by (simp add: reachable_ref_consistent)
  from c k have len: "k < length (nodes s)" and nl: "\<not> isLoading s"
    unfolding ref_consistent_def by auto
  note b = begin_not_loading [OF nl]
  show "audioSourceRef (handleSynthesizeAndPlay_begin s) = None"
    unfolding b by (simp add: stopPlayback_def split: option.split)
  show "ended (nodes (handleSynthesizeAndPlay_begin s) ! k)"
    unfolding b using stopPlayback_node [OF k len] by simp
  show "\<not> connected (nodes (handleSynthesizeAndPlay_begin s) ! k)"
    unfolding b using stopPlayback_node [OF k len] by simp
next
  assume "reachable pf s" and f: "fire pf (Settled u) s = Some s'" and p: "\<not> isPlaying s'"
  then have "ref_consistent s" by (simp add: reachable_ref_consistent)
  then have "ref_consistent s'" using f by (rule ref_consistent_fire)
  with p show "audioSourceRef s' = None"
    unfolding ref_consistent_def by simp
next
  assume f: "fire pf (Ended k) s = Some s'"
  then show "audioSourceRef s' = None" and "\<not> isPlaying s'"
    by (auto simp: source_onended_def split: if_splits)
next
  assume "reachable pf s"
  then have "ref_consistent s" by (rule reachable_ref_consistent)
  then have c: "ref_consistent (stopPlayback s)" by (rule ref_consistent_stopPlayback)
  show r: "audioSourceRef (stopPlayback s) = None"
    by (simp add: stopPlayback_def split: option.split)
  show "\<not> isPlaying (stopPlayback s)"
    using c r unfolding ref_consistent_def by simp
qed

lemma example_playing_timely:
  "timely_run \<lparr>newAudioContext = \<lparr>maxChannels = 32, minRate = 8000, maxRate = 96000\<rparr>,
           dom_message = (\<lambda>d. js ''DOMException'')\<rparr>
     [Play, Settled (Resolves (Response (Some [Candidate (Some (Content (Some
              [Part (Some (InlineData (Some (js ''AAA=''))))])))])))]
     initial"
  by (simp add: initial_def handleSynthesizeAndPlay_begin_def stopPlayback_def ended_pending_def)

lemma example_replaced:
  "run \<lparr>newAudioContext = \<lparr>maxChannels = 32, minRate = 8000, maxRate = 96000\<rparr>,
           dom_message = (\<lambda>d. js ''DOMException'')\<rparr>
     [Play, Ended 0, Settled (Resolves (Response (Some [Candidate (Some (Content (Some
              [Part (Some (InlineData (Some (js ''AAA=''))))])))])))]
     \<lparr>isLoading = False, isPlaying = True, error = None,
            audioContextRef = Some \<lparr>maxChannels = 32, minRate = 8000, maxRate = 96000\<rparr>,
            audioSourceRef = Some 0,
            nodes = [\<lparr>node_buffer = \<lparr>sampleRate = 24000, frames = 1, channels = [[Val 0]]\<rparr>,
                      connected = True, ended = False, notified = False\<rparr>],
            requests = 0\<rparr>
   = Some \<lparr>isLoading = False, isPlaying = True, error = None,
            audioContextRef = Some \<lparr>maxChannels = 32, minRate = 8000, maxRate = 96000\<rparr>,
            audioSourceRef = Some 1,
            nodes = [\<lparr>node_buffer = \<lparr>sampleRate = 24000, frames = 1, channels = [[Val 0]]\<rparr>,
                      connected = False, ended = True, notified = True\<rparr>,
                     \<lparr>node_buffer = \<lparr>sampleRate = 24000, frames = 1, channels = [[Val 0]]\<rparr>,
                      connected = True, ended = False, notified = False\<rparr>],
            requests = 0\<rparr>"
  by (simp add: handleSynthesizeAndPlay_begin_def stopPlayback_def
      source_onended_def handleSynthesizeAndPlay_resume_def example_try)

lemma example_replaced_timely:
  "timely_run \<lparr>newAudioContext = \<lparr>maxChannels = 32, minRate = 8000, maxRate = 96000\<rparr>,
           dom_message = (\<lambda>d. js ''DOMException'')\<rparr>
     [Play, Ended 0, Settled (Resolves (Response (Some [Candidate (Some (Content (Some
              [Part (Some (InlineData (Some (js ''AAA=''))))])))])))]
     \<lparr>isLoading = False, isPlaying = True, error = None,
            audioContextRef = Some \<lparr>maxChannels = 32, minRate = 8000, maxRate = 96000\<rparr>,
            audioSourceRef = Some 0,
            nodes = [\<lparr>node_buffer = \<lparr>sampleRate = 24000, frames = 1, channels = [[Val 0]]\<rparr>,
                      connected = True, ended = False, notified = False\<rparr>],
            requests = 0\<rparr>"
  by (simp add: handleSynthesizeAndPlay_begin_def stopPlayback_def
      source_onended_def ended_pending_def)

theorem one_session_invariant_witness:
  "\<exists>s1 s2.
      run \<lparr>newAudioContext = \<lparr>maxChannels = 32, minRate = 8000, maxRate = 96000\<rparr>,
           dom_message = (\<lambda>d. js ''DOMException'')\<rparr>
        [Play, Settled (Resolves (Response (Some [Candidate (Some (Content (Some
              [Part (Some (InlineData (Some (js ''AAA=''))))])))])))] initial = Some s1
    \<and> active s1 = [0] \<and> audioSourceRef s1 = Some 0
    \<and> audioSourceRef (handleSynthesizeAndPlay_begin s1) = None
    \<and> ended (nodes (handleSynthesizeAndPlay_begin s1) ! 0)
    \<and> active (handleSynthesizeAndPlay_begin s1) = []
    \<and> run \<lparr>newAudioContext = \<lparr>maxChannels = 32, minRate = 8000, maxRate = 96000\<rparr>,
           dom_message = (\<lambda>d. js ''DOMException'')\<rparr>
        [Play, Ended 0, Settled (Resolves (Response (Some [Candidate (Some (Content (Some
              [Part (Some (InlineData (Some (js ''AAA=''))))])))])))] s1 = Some s2
    \<and> isPlaying s2 \<and> length (active s2) \<le> 1 \<and> audioSourceRef s2 = Some 1
    \<and> audioSourceRef (stopPlayback s2) = None \<and> active (stopPlayback s2) = []"
proof -
  let ?pf = "\<lparr>newAudioContext = \<lparr>maxChannels = 32, minRate = 8000, maxRate = 96000\<rparr>,
           dom_message = (\<lambda>d. js ''DOMException'')\<rparr>"
  let ?s1 = "\<lparr>isLoading = False, isPlaying = True, error = None,
            audioContextRef = Some \<lparr>maxChannels = 32, minRate = 8000, maxRate = 96000\<rparr>,
            audioSourceRef = Some 0,
            nodes = [\<lparr>node_buffer = \<lparr>sampleRate = 24000, frames = 1, channels = [[Val 0]]\<rparr>,
                      connected = True, ended = False, notified = False\<rparr>],
            requests = 0\<rparr>"
  let ?s2 = "\<lparr>isLoading = False, isPlaying = True, error = None,
            audioContextRef = Some \<lparr>maxChannels = 32, minRate = 8000, maxRate = 96000\<rparr>,
            audioSourceRef = Some 1,
            nodes = [\<lparr>node_buffer = \<lparr>sampleRate = 24000, frames = 1, channels = [[Val 0]]\<rparr>,
                      connected = False, ended = True, notified = True\<rparr>,
                     \<lparr>node_buffer = \<lparr>sampleRate = 24000, frames = 1, channels = [[Val 0]]\<rparr>,
                      connected = True, ended = False, notified = False\<rparr>],
            requests = 0\<rparr>"
  have t1: "reachable_timely ?pf ?s1"
    using example_playing_timely example_playing by (rule run_timely)
  then have t2: "reachable_timely ?pf ?s2"
    using example_replaced_timely example_replaced by (rule run_timely_from)
  have r1: "reachable ?pf ?s1"
    using t1 by (rule reachable_timely_reachable)
  have r2: "reachable ?pf ?s2"
    using t2 by (rule reachable_timely_reachable)
  have a1: "active ?s1 = [0]"
    by (simp add: active_def)
  have k: "audioSourceRef ?s1 = Some 0"
    by simp
  note i1 = one_session_invariant [of ?pf ?s1 _ _ 0]
  note i2 = one_session_invariant [of ?pf ?s2 _ _ 1]
  have b: "audioSourceRef (handleSynthesizeAndPlay_begin ?s1) = None
      \<and> ended (nodes (handleSynthesizeAndPlay_begin ?s1) ! 0)
      \<and> active (handleSynthesizeAndPlay_begin ?s1) = []"
    using i1 t1 r1 k by blast
  have c: "length (active ?s2) \<le> 1
      \<and> audioSourceRef (stopPlayback ?s2) = None \<and> active (stopPlayback ?s2) = []"
    using i2 t2 r2 by blast
  have d: "isPlaying ?s2 \<and> audioSourceRef ?s2 = Some 1"
    by simp
  from example_playing a1 k b example_replaced c d show ?thesis
    by blast
qed

lemma example_late:
  "run \<lparr>newAudioContext = \<lparr>maxChannels = 32, minRate = 8000, maxRate = 96000\<rparr>,
           dom_message = (\<lambda>d. js ''DOMException'')\<rparr>
     [Click, Settled (Resolves (Response (Some [Candidate (Some (Content (Some
              [Part (Some (InlineData (Some (js ''AAA=''))))])))]))), Click, Click, Settled (Resolves (Response (Some [Candidate (Some (Content (Some
              [Part (Some (InlineData (Some (js ''AAA=''))))])))]))), Ended 0, Click, Settled (Resolves (Response (Some [Candidate (Some (Content (Some
              [Part (Some (InlineData (Some (js ''AAA=''))))])))])))]
     initial
   = Some \<lparr>isLoading = False, isPlaying = True, error = None,
            audioContextRef = Some \<lparr>maxChannels = 32, minRate = 8000, maxRate = 96000\<rparr>,
            audioSourceRef = Some 2,
            nodes = [\<lparr>node_buffer = \<lparr>sampleRate = 24000, frames = 1, channels = [[Val 0]]\<rparr>,
                      connected = False, ended = True, notified = True\<rparr>,
                     \<lparr>node_buffer = \<lparr>sampleRate = 24000, frames = 1, channels = [[Val 0]]\<rparr>,
                      connected = True, ended = False, notified = False\<rparr>,
                     \<lparr>node_buffer = \<lparr>sampleRate = 24000, frames = 1, channels = [[Val 0]]\<rparr>,
                      connected = True, ended = False, notified = False\<rparr>],
            requests = 0\<rparr>"
  by (simp add: initial_def handleSynthesizeAndPlay_begin_def stopPlayback_def
      source_onended_def handleSynthesizeAndPlay_resume_def example_try)

text \<open>
  The claim as the specification states it, at most one session at any time, fails on a run
  that is not timely. The \<^verbatim>\<open>onended\<close> handler does not look at which source ended:
  play, stop and play again, and let the \<^verbatim>\<open>ended\<close> event of the first source arrive
  after the second source has started. The handler then clears the ref and the playing flag
  while the second source sounds, so the next click starts a third source without stopping
  the second, and sources 1 and 2 sound together.
\<close>

theorem one_session_invariant_counterexample:
  "map_option active
     (run \<lparr>newAudioContext = \<lparr>maxChannels = 32, minRate = 8000, maxRate = 96000\<rparr>,
           dom_message = (\<lambda>d. js ''DOMException'')\<rparr>
        [Click, Settled (Resolves (Response (Some [Candidate (Some (Content (Some
              [Part (Some (InlineData (Some (js ''AAA=''))))])))]))), Click, Click, Settled (Resolves (Response (Some [Candidate (Some (Content (Some
              [Part (Some (InlineData (Some (js ''AAA=''))))])))]))), Ended 0, Click, Settled (Resolves (Response (Some [Candidate (Some (Content (Some
              [Part (Some (InlineData (Some (js ''AAA=''))))])))])))]
        initial)
   = Some [1, 2]"
proof -
  have upt3: "[0..<Suc (Suc (Suc 0))] = [0, Suc 0, Suc (Suc 0)]"
    by (simp add: upt_rec)
  show ?thesis
    unfolding example_late by (simp add: active_def upt3)
qed

text \<open>
  Claim C9. When the attempt fails, through a rejected or empty synthesis, a base64 string
  that does not decode, or audio bytes that \<^verbatim>\<open>decodeAudioData\<close> rejects, the state
  left is idle: not playing, not loading, no source in the ref, no source created. The
  error's message (or the fallback text when it is empty) is in \<open>error\<close>, so a non-empty
  message is shown; no request is outstanding, so nothing is retried; and the button accepts
  the next click, which starts a new request and clears the message.
\<close>

theorem failure_leaves_idle:
  assumes r: "reachable pf s" and f: "fire pf (Settled u) s = Some s'"
    and e: "synthesizeSpeech u = Inl err
         \<or> (\<exists>base64Audio. synthesizeSpeech u = Inr base64Audio \<and>
              (decode base64Audio = Inl err
               \<or> (\<exists>bytes. decode base64Audio = Inr bytes \<and>
                    decodeAudioData bytes
                      (case audioContextRef s of None \<Rightarrow> newAudioContext pf | Some c \<Rightarrow> c)
                      24000 1 = Inl err)))"
  shows "\<not> isPlaying s' \<and> \<not> isLoading s' \<and> audioSourceRef s' = None
       \<and> error s' = Some (if message pf err = [] then js ''An unexpected error occurred.''
                             else message pf err)
       \<and> error s' \<noteq> None \<and> error s' \<noteq> Some []
       \<and> requests s' = 0
       \<and> nodes s' = nodes s
       \<and> (\<exists>s''. fire pf Click s' = Some s'' \<and> isLoading s'' \<and> requests s'' = 1
                 \<and> error s'' = None)"
proof -
  from r have c: "ref_consistent s" by (rule reachable_ref_consistent)
  note en = settled_enabled [OF f]
  have c': "ref_consistent s'"
    using c f by (rule ref_consistent_fire)
  have t: "fst (try_block pf u s) = Some err"
    using e by (simp only: try_block_fails_iff)
  note st = try_block_failure_state [OF t]
  have s': "s' = (snd (try_block pf u s))
           \<lparr>error := Some (if message pf err = [] then js ''An unexpected error occurred.''
                           else message pf err),
            isPlaying := False, isLoading := False,
            requests := requests (snd (try_block pf u s)) - 1\<rparr>"
    unfolding en(2) using t by (rule resume_failure)
  have np: "\<not> isPlaying s'" and nl: "\<not> isLoading s'"
    by (simp_all add: s')
  have ref: "audioSourceRef s' = None"
    using c' np unfolding ref_consistent_def by simp
  have err: "error s' = Some (if message pf err = [] then js ''An unexpected error occurred.''
                             else message pf err)"
    by (simp add: s')
  have nonempty: "js ''An unexpected error occurred.'' \<noteq> []"
    by (simp add: js_def)
  have req: "requests s' = 0"
    using c' nl unfolding ref_consistent_def by simp
  have nodes: "nodes s' = nodes s"
    using st by (simp add: s')
  have click: "fire pf Click s' = Some (handleSynthesizeAndPlay_begin s')"
    using np nl by simp
  have again: "isLoading (handleSynthesizeAndPlay_begin s')
       \<and> requests (handleSynthesizeAndPlay_begin s') = 1
       \<and> error (handleSynthesizeAndPlay_begin s') = None"
    using req by (simp add: begin_not_loading [OF nl])
  from np nl ref err nonempty req nodes click again show ?thesis
    by auto
qed

theorem failure_leaves_idle_witness:
  "fire \<lparr>newAudioContext = \<lparr>maxChannels = 32, minRate = 8000, maxRate = 96000\<rparr>,
           dom_message = (\<lambda>d. js ''DOMException'')\<rparr>
     (Settled (RejectsError (js ''offline'')))
     \<lparr>isLoading = True, isPlaying = False, error = None, audioContextRef = None,
            audioSourceRef = None, nodes = [], requests = 1\<rparr>
   = Some \<lparr>isLoading = False, isPlaying = False,
            error = Some (js ''Failed to synthesize speech: '' @ js ''offline''),
            audioContextRef = None, audioSourceRef = None, nodes = [], requests = 0\<rparr>
   \<and> synthesizeSpeech (RejectsError (js ''offline''))
       = Inl (JsError (js ''Failed to synthesize speech: '' @ js ''offline''))
   \<and> (\<exists>s''. fire \<lparr>newAudioContext = \<lparr>maxChannels = 32, minRate = 8000, maxRate = 96000\<rparr>,
           dom_message = (\<lambda>d. js ''DOMException'')\<rparr> Click
           \<lparr>isLoading = False, isPlaying = False,
             error = Some (js ''Failed to synthesize speech: '' @ js ''offline''),
             audioContextRef = None, audioSourceRef = None, nodes = [], requests = 0\<rparr>
           = Some s''
         \<and> isLoading s'' \<and> requests s'' = 1 \<and> error s'' = None)"
proof -
  let ?pf = "\<lparr>newAudioContext = \<lparr>maxChannels = 32, minRate = 8000, maxRate = 96000\<rparr>,
           dom_message = (\<lambda>d. js ''DOMException'')\<rparr>"
  let ?s = "\<lparr>isLoading = True, isPlaying = False, error = None, audioContextRef = None,
            audioSourceRef = None, nodes = [], requests = 1\<rparr>"
  let ?s' = "\<lparr>isLoading = False, isPlaying = False,
            error = Some (js ''Failed to synthesize speech: '' @ js ''offline''),
            audioContextRef = None, audioSourceRef = None, nodes = [], requests = 0\<rparr>"
  let ?err = "JsError (js ''Failed to synthesize speech: '' @ js ''offline'')"
  have "run ?pf [Play] initial = Some ?s"
    by (simp add: initial_def handleSynthesizeAndPlay_begin_def stopPlayback_def)
  then have r: "reachable ?pf ?s"
    by (rule run_reachable)
  have e: "synthesizeSpeech (RejectsError (js ''offline'')) = Inl ?err"
    by (simp add: synthesizeSpeech_def synthesize_try_def)
  have ne: "js ''Failed to synthesize speech: '' \<noteq> []"
    by (simp add: js_def)
  have f: "fire ?pf (Settled (RejectsError (js ''offline''))) ?s = Some ?s'"
    by (simp add: handleSynthesizeAndPlay_resume_def try_block_def e catch_block_def ne)
  from failure_leaves_idle [OF r f, of ?err] e
  have "\<exists>s''. fire ?pf Click ?s' = Some s'' \<and> isLoading s'' \<and> requests s'' = 1
                 \<and> error s'' = None"
    by blast
  with f e show ?thesis
    by blast
qed

end
